theory Spec2Isabelle
  imports Main "HOL-Library.AList"
begin

section \<open>Values, objects and the heap\<close>

text \<open>
  The reactive-wrapper factory of \<^verbatim>\<open>packages/reactivity/src/reactive.ts\<close> works on
  JavaScript values with identity. A value is a primitive or a reference to a heap cell;
  a heap cell is an ordinary object or a \<^verbatim>\<open>Proxy\<close> built by the factory. Addresses are
  positions in the heap, in allocation order.

  Scope of the model: objects carry own data properties only (no accessor properties, and
  the prototype chain defines none of the reserved keys); numbers are integers (\<open>0\<close> is the
  falsy one); the only proxies are those built by \<^verbatim>\<open>createReactiveObject\<close>. A
  reference beyond the end of the heap, which no JavaScript value is, reads as
  \<^verbatim>\<open>undefined\<close> everywhere and is no object.
\<close>

type_synonym addr = nat

datatype val = VUndefined | VNull | VBool bool | VNum int | VStr string | VRef addr

text \<open>JavaScript truthiness (\<^verbatim>\<open>!!v\<close>).\<close>

fun truthy :: "val \<Rightarrow> bool" where
  "truthy VUndefined = False"
| "truthy VNull = False"
| "truthy (VBool b) = b"
| "truthy (VNum n) = (n \<noteq> 0)"
| "truthy (VStr t) = (t \<noteq> [])"
| "truthy (VRef a) = True"

text \<open>The eight handler objects imported from \<^verbatim>\<open>./baseHandlers\<close> and \<^verbatim>\<open>./collectionHandlers\<close>.\<close>

datatype handlers =
    mutableHandlers | readonlyHandlers | shallowReactiveHandlers | shallowReadonlyHandlers
  | mutableCollectionHandlers | readonlyCollectionHandlers
  | shallowCollectionHandlers | shallowReadonlyCollectionHandlers

text \<open>
  An ordinary object: \<open>rawType\<close> is what \<^verbatim>\<open>toRawType\<close> computes for it
  (\<^verbatim>\<open>Object.prototype.toString.call(o).slice(8, -1)\<close>), \<open>callable\<close> says that
  \<^verbatim>\<open>typeof o\<close> is \<^verbatim>\<open>'function'\<close>, \<open>printable\<close> says that \<^verbatim>\<open>String(o)\<close> returns a
  string (it throws when neither \<^verbatim>\<open>toString\<close> nor \<^verbatim>\<open>valueOf\<close> of the object gives a
  primitive, as after \<^verbatim>\<open>o.toString = 1\<close>), \<open>props\<close> are its own properties.
\<close>

record obj =
  rawType :: string
  callable :: bool
  printable :: bool
  extensible :: bool
  props :: "(string \<times> val) list"

datatype cell = Obj obj | Proxy addr handlers

datatype error = TypeError

text \<open>\<^verbatim>\<open>enum TargetType\<close>\<close>

datatype TargetType = INVALID | COMMON | COLLECTION

text \<open>Which of the four module-level \<^verbatim>\<open>WeakMap\<close>s a caller hands to the factory.\<close>

datatype ProxyMap = ReactiveMap | ShallowReactiveMap | ReadonlyMap | ShallowReadonlyMap

text \<open>
  The module state: the heap and the four registries. A registry maps the address of a
  target to the address of its proxy; the factory stores nothing but proxies there.
  \<open>DEV\<close> is the build constant \<^verbatim>\<open>__DEV__\<close>, which no operation changes.
\<close>

record state =
  DEV :: bool
  heap :: "cell list"
  reactiveMap :: "(addr \<times> addr) list"
  shallowReactiveMap :: "(addr \<times> addr) list"
  readonlyMap :: "(addr \<times> addr) list"
  shallowReadonlyMap :: "(addr \<times> addr) list"

text \<open>\<^verbatim>\<open>enum ReactiveFlags\<close> of \<^verbatim>\<open>constants.ts\<close>\<close>

abbreviation SKIP :: string where "SKIP \<equiv> ''__v_skip''"
abbreviation IS_REACTIVE :: string where "IS_REACTIVE \<equiv> ''__v_isReactive''"
abbreviation IS_READONLY :: string where "IS_READONLY \<equiv> ''__v_isReadonly''"
abbreviation IS_SHALLOW :: string where "IS_SHALLOW \<equiv> ''__v_isShallow''"
abbreviation RAW :: string where "RAW \<equiv> ''__v_raw''"

definition cell_at :: "cell list \<Rightarrow> addr \<Rightarrow> cell option" where
  "cell_at h a = (if a < length h then Some (h ! a) else None)"

text \<open>
  Operations without a trap are forwarded by a proxy to its target, and by that target, if
  it is a proxy too, to its own target: \<open>resolve\<close> follows the chain to the ordinary object
  at its end. A proxy is allocated after its target, so the chain descends in the heap.
\<close>

function resolve :: "cell list \<Rightarrow> addr \<Rightarrow> addr" where
  "resolve h a =
     (case cell_at h a of
        Some (Proxy t hs) \<Rightarrow> (if t < a then resolve h t else a)
      | _ \<Rightarrow> a)"
  by pat_completeness auto
termination
  by (relation "measure snd") auto

declare resolve.simps [simp del]

definition base_obj :: "cell list \<Rightarrow> addr \<Rightarrow> obj option" where
  "base_obj h a = (case cell_at h (resolve h a) of Some (Obj ob) \<Rightarrow> Some ob | _ \<Rightarrow> None)"

definition own_get :: "obj \<Rightarrow> string \<Rightarrow> val" where
  "own_get ob key = (case map_of (props ob) key of Some v \<Rightarrow> v | None \<Rightarrow> VUndefined)"

text \<open>
  Modelled from the spec: whether a handler object of \<^verbatim>\<open>./baseHandlers\<close> or
  \<^verbatim>\<open>./collectionHandlers\<close> (modules missing from the sources) belongs to a readonly mode;
  the constructors pair the handlers with the modes.
\<close>

fun handler_readonly :: "handlers \<Rightarrow> bool" where
  "handler_readonly mutableHandlers = False"
| "handler_readonly readonlyHandlers = True"
| "handler_readonly shallowReactiveHandlers = False"
| "handler_readonly shallowReadonlyHandlers = True"
| "handler_readonly mutableCollectionHandlers = False"
| "handler_readonly readonlyCollectionHandlers = True"
| "handler_readonly shallowCollectionHandlers = False"
| "handler_readonly shallowReadonlyCollectionHandlers = True"

text \<open>
  Modelled from the spec: whether a handler object of \<^verbatim>\<open>./baseHandlers\<close> or
  \<^verbatim>\<open>./collectionHandlers\<close> (modules missing from the sources) belongs to a shallow mode.
\<close>

fun handler_shallow :: "handlers \<Rightarrow> bool" where
  "handler_shallow mutableHandlers = False"
| "handler_shallow readonlyHandlers = False"
| "handler_shallow shallowReactiveHandlers = True"
| "handler_shallow shallowReadonlyHandlers = True"
| "handler_shallow mutableCollectionHandlers = False"
| "handler_shallow readonlyCollectionHandlers = False"
| "handler_shallow shallowCollectionHandlers = True"
| "handler_shallow shallowReadonlyCollectionHandlers = True"

text \<open>
  Modelled from the spec: the \<^verbatim>\<open>get\<close> trap of the handler objects (missing from the
  sources) on the reserved keys. A wrapper answers is-reactive with "its mode is not
  readonly", is-readonly with "its mode is readonly", is-shallow with "its mode is
  shallow", and raw with the directly wrapped value; \<open>None\<close> stands for any other key, the
  skip key among them, which is read from the wrapped value.
\<close>

definition handler_get :: "addr \<Rightarrow> handlers \<Rightarrow> string \<Rightarrow> val option" where
  "handler_get t hs key =
     (if key = IS_REACTIVE then Some (VBool (\<not> handler_readonly hs))
      else if key = IS_READONLY then Some (VBool (handler_readonly hs))
      else if key = IS_SHALLOW then Some (VBool (handler_shallow hs))
      else if key = RAW then Some (VRef t)
      else None)"

text \<open>
  Reading property \<open>key\<close> of the object at address \<open>a\<close>: an own property of an ordinary
  object; on a proxy the answer of its handler, or else the property of the object the
  proxy stands for.
\<close>

definition js_get :: "cell list \<Rightarrow> addr \<Rightarrow> string \<Rightarrow> val" where
  "js_get h a key =
     (case cell_at h a of
        None \<Rightarrow> VUndefined
      | Some (Obj ob) \<Rightarrow> own_get ob key
      | Some (Proxy t hs) \<Rightarrow>
          (case handler_get t hs key of
             Some v \<Rightarrow> v
           | None \<Rightarrow> (case base_obj h a of Some ob \<Rightarrow> own_get ob key | None \<Rightarrow> VUndefined)))"

text \<open>
  \<^verbatim>\<open>value[key]\<close> on any value: a \<^verbatim>\<open>TypeError\<close> on \<^verbatim>\<open>undefined\<close> and \<^verbatim>\<open>null\<close>,
  \<^verbatim>\<open>undefined\<close> on the other primitives (their prototypes define no reserved key).
\<close>

fun get_prop :: "state \<Rightarrow> val \<Rightarrow> string \<Rightarrow> error + val" where
  "get_prop s VUndefined key = Inl TypeError"
| "get_prop s VNull key = Inl TypeError"
| "get_prop s (VRef a) key = Inr (js_get (heap s) a key)"
| "get_prop s v key = Inr VUndefined"

section \<open>Helpers of \<^verbatim>\<open>@vue/shared\<close> and of the platform\<close>

text \<open>
  \<^verbatim>\<open>isObject\<close>, \<^verbatim>\<open>toRawType\<close>, \<^verbatim>\<open>hasOwn\<close> and \<^verbatim>\<open>def\<close> are imported from
  \<^verbatim>\<open>@vue/shared\<close>, which is missing from the sources. The handlers, as the spec lists
  their traps (read, write, has, delete, enumerate), trap none of \<^verbatim>\<open>typeof\<close>,
  \<^verbatim>\<open>isExtensible\<close>, \<^verbatim>\<open>getOwnPropertyDescriptor\<close> and \<^verbatim>\<open>defineProperty\<close>, so a proxy
  forwards them to the object it stands for.
\<close>

text \<open>
  Modelled from the spec: \<^verbatim>\<open>isObject\<close> of \<^verbatim>\<open>@vue/shared\<close> (missing from the sources),
  "object-like": \<^verbatim>\<open>val !== null && typeof val === 'object'\<close>, which excludes functions.
\<close>

definition isObject :: "state \<Rightarrow> val \<Rightarrow> bool" where
  "isObject s v =
     (case v of
        VRef a \<Rightarrow> (case base_obj (heap s) a of Some ob \<Rightarrow> \<not> callable ob | None \<Rightarrow> False)
      | _ \<Rightarrow> False)"

text \<open>\<^verbatim>\<open>Object.isExtensible(value)\<close>; false on a primitive.\<close>

definition isExtensible :: "state \<Rightarrow> val \<Rightarrow> bool" where
  "isExtensible s v =
     (case v of
        VRef a \<Rightarrow> (case base_obj (heap s) a of Some ob \<Rightarrow> extensible ob | None \<Rightarrow> False)
      | _ \<Rightarrow> False)"

text \<open>
  Modelled from the spec: \<^verbatim>\<open>toRawType\<close> of \<^verbatim>\<open>@vue/shared\<close> (missing from the sources),
  the "structural kind" of a value: \<^verbatim>\<open>Object.prototype.toString.call(value).slice(8, -1)\<close>.
\<close>

fun toRawType :: "state \<Rightarrow> val \<Rightarrow> string" where
  "toRawType s VUndefined = ''Undefined''"
| "toRawType s VNull = ''Null''"
| "toRawType s (VBool b) = ''Boolean''"
| "toRawType s (VNum n) = ''Number''"
| "toRawType s (VStr t) = ''String''"
| "toRawType s (VRef a) =
     (case base_obj (heap s) a of Some ob \<Rightarrow> rawType ob | None \<Rightarrow> ''Undefined'')"

text \<open>
  Modelled from the spec: \<^verbatim>\<open>hasOwn\<close> of \<^verbatim>\<open>@vue/shared\<close> (missing from the sources),
  "own-present": \<^verbatim>\<open>Object.prototype.hasOwnProperty.call(val, key)\<close>, for the reserved
  keys, none of which is an own property of a primitive; a \<^verbatim>\<open>TypeError\<close> on
  \<^verbatim>\<open>undefined\<close> and \<^verbatim>\<open>null\<close>.
\<close>

fun hasOwn :: "state \<Rightarrow> val \<Rightarrow> string \<Rightarrow> error + bool" where
  "hasOwn s VUndefined key = Inl TypeError"
| "hasOwn s VNull key = Inl TypeError"
| "hasOwn s (VRef a) key =
     Inr (case base_obj (heap s) a of Some ob \<Rightarrow> map_of (props ob) key \<noteq> None | None \<Rightarrow> False)"
| "hasOwn s v key = Inr False"

text \<open>
  Modelled from the spec: \<^verbatim>\<open>def\<close> of \<^verbatim>\<open>@vue/shared\<close> (missing from the sources), which
  "sets" a property: \<^verbatim>\<open>Object.defineProperty(obj, key, ...)\<close> defines the own property on
  the object the value stands for; a \<^verbatim>\<open>TypeError\<close> when called on a non-object.
\<close>

definition def :: "state \<Rightarrow> val \<Rightarrow> string \<Rightarrow> val \<Rightarrow> error + state" where
  "def s v key x =
     (case v of
        VRef a \<Rightarrow>
          (case base_obj (heap s) a of
             Some ob \<Rightarrow>
               Inr (s\<lparr>heap := (heap s)[resolve (heap s) a :=
                      Obj (ob\<lparr>props := AList.update key x (props ob)\<rparr>)]\<rparr>)
           | None \<Rightarrow> Inl TypeError)
      | _ \<Rightarrow> Inl TypeError)"

text \<open>
  \<^verbatim>\<open>String(value)\<close>, as far as its returning goes: it returns on every primitive, and on an
  object as \<open>printable\<close> says; the error is the \<^verbatim>\<open>TypeError\<close> of a failed conversion (or
  whatever a \<^verbatim>\<open>toString\<close> of the object throws, which the model does not tell apart).
\<close>

definition js_String :: "state \<Rightarrow> val \<Rightarrow> error + unit" where
  "js_String s v =
     (case v of
        VRef a \<Rightarrow>
          (case base_obj (heap s) a of
             Some ob \<Rightarrow> if printable ob then Inr () else Inl TypeError
           | None \<Rightarrow> Inr ())
      | _ \<Rightarrow> Inr ())"

text \<open>\<^verbatim>\<open>new Proxy(target, handler)\<close>: allocates the proxy; a \<^verbatim>\<open>TypeError\<close> on a non-object.\<close>

definition new_Proxy :: "state \<Rightarrow> val \<Rightarrow> handlers \<Rightarrow> error + (val \<times> state)" where
  "new_Proxy s target hs =
     (case target of
        VRef a \<Rightarrow> Inr (VRef (length (heap s)), s\<lparr>heap := heap s @ [Proxy a hs]\<rparr>)
      | _ \<Rightarrow> Inl TypeError)"

text \<open>\<^verbatim>\<open>proxyMap.get(key)\<close> and \<^verbatim>\<open>proxyMap.set(key, value)\<close> on the chosen registry.\<close>

fun registry :: "state \<Rightarrow> ProxyMap \<Rightarrow> (addr \<times> addr) list" where
  "registry s ReactiveMap = reactiveMap s"
| "registry s ShallowReactiveMap = shallowReactiveMap s"
| "registry s ReadonlyMap = readonlyMap s"
| "registry s ShallowReadonlyMap = shallowReadonlyMap s"

definition proxyMap_get :: "state \<Rightarrow> ProxyMap \<Rightarrow> val \<Rightarrow> addr option" where
  "proxyMap_get s pm key = (case key of VRef a \<Rightarrow> map_of (registry s pm) a | _ \<Rightarrow> None)"

fun registry_update :: "state \<Rightarrow> ProxyMap \<Rightarrow> addr \<Rightarrow> addr \<Rightarrow> state" where
  "registry_update s ReactiveMap k p = s\<lparr>reactiveMap := AList.update k p (reactiveMap s)\<rparr>"
| "registry_update s ShallowReactiveMap k p =
     s\<lparr>shallowReactiveMap := AList.update k p (shallowReactiveMap s)\<rparr>"
| "registry_update s ReadonlyMap k p = s\<lparr>readonlyMap := AList.update k p (readonlyMap s)\<rparr>"
| "registry_update s ShallowReadonlyMap k p =
     s\<lparr>shallowReadonlyMap := AList.update k p (shallowReadonlyMap s)\<rparr>"

definition proxyMap_set :: "state \<Rightarrow> ProxyMap \<Rightarrow> val \<Rightarrow> val \<Rightarrow> error + state" where
  "proxyMap_set s pm key v =
     (case (key, v) of
        (VRef a, VRef p) \<Rightarrow> Inr (registry_update s pm a p)
      | _ \<Rightarrow> Inl TypeError)"

section \<open>The classifier\<close>

text \<open>
  \<^verbatim>\<open>targetTypeMap\<close> and \<^verbatim>\<open>getTargetType\<close>:
  \<^verbatim>\<open>value[SKIP] || !Object.isExtensible(value) ? INVALID : targetTypeMap(toRawType(value))\<close>.
\<close>

definition targetTypeMap :: "string \<Rightarrow> TargetType" where
  "targetTypeMap rawType' =
     (if rawType' = ''Object'' \<or> rawType' = ''Array'' then COMMON
      else if rawType' = ''Map'' \<or> rawType' = ''Set''
           \<or> rawType' = ''WeakMap'' \<or> rawType' = ''WeakSet'' then COLLECTION
      else INVALID)"

definition getTargetType :: "state \<Rightarrow> val \<Rightarrow> error + TargetType" where
  "getTargetType s v =
     (case get_prop s v SKIP of
        Inl e \<Rightarrow> Inl e
      | Inr skip \<Rightarrow>
          Inr (if truthy skip \<or> \<not> isExtensible s v then INVALID
               else targetTypeMap (toRawType s v)))"

section \<open>Introspection\<close>

text \<open>
  \<^verbatim>\<open>isReadonly\<close>, \<^verbatim>\<open>isShallow\<close> and \<^verbatim>\<open>isProxy\<close> are \<^verbatim>\<open>!!(value && value[FLAG])\<close>:
  the flag is read only from a truthy value.
\<close>

definition isReadonly :: "state \<Rightarrow> val \<Rightarrow> error + bool" where
  "isReadonly s v =
     (if truthy v
      then (case get_prop s v IS_READONLY of Inl e \<Rightarrow> Inl e | Inr f \<Rightarrow> Inr (truthy f))
      else Inr False)"

definition isShallow :: "state \<Rightarrow> val \<Rightarrow> error + bool" where
  "isShallow s v =
     (if truthy v
      then (case get_prop s v IS_SHALLOW of Inl e \<Rightarrow> Inl e | Inr f \<Rightarrow> Inr (truthy f))
      else Inr False)"

definition isProxy :: "state \<Rightarrow> val \<Rightarrow> error + bool" where
  "isProxy s v =
     (if truthy v
      then (case get_prop s v RAW of Inl e \<Rightarrow> Inl e | Inr f \<Rightarrow> Inr (truthy f))
      else Inr False)"

text \<open>
  \<^verbatim>\<open>isReactive\<close> and \<^verbatim>\<open>toRaw\<close> recurse along the raw flag; a call that does not return
  has the value \<open>None\<close>.
\<close>

partial_function (option) isReactive :: "state \<Rightarrow> val \<Rightarrow> (error + bool) option" where
  "isReactive s v =
     (case isReadonly s v of
        Inl e \<Rightarrow> Some (Inl e)
      | Inr ro \<Rightarrow>
          if ro
          then (case get_prop s v RAW of Inl e \<Rightarrow> Some (Inl e) | Inr raw \<Rightarrow> isReactive s raw)
          else Some (if truthy v
                     then (case get_prop s v IS_REACTIVE of
                             Inl e \<Rightarrow> Inl e | Inr f \<Rightarrow> Inr (truthy f))
                     else Inr False))"

partial_function (option) toRaw :: "state \<Rightarrow> val \<Rightarrow> (error + val) option" where
  "toRaw s observed =
     (if truthy observed
      then (case get_prop s observed RAW of
              Inl e \<Rightarrow> Some (Inl e)
            | Inr raw \<Rightarrow> if truthy raw then toRaw s raw else Some (Inr observed))
      else Some (Inr observed))"

declare isReactive.simps [code]
declare toRaw.simps [code]

section \<open>The factory and the constructors\<close>

text \<open>
  Step 1 of \<^verbatim>\<open>createReactiveObject\<close> on a non-object:
  \<^verbatim>\<open>if (__DEV__) { warn(`value cannot be made ...: ${String(target)}`) }\<close>. The argument of
  \<^verbatim>\<open>warn\<close> is built first, and \<^verbatim>\<open>String(target)\<close> may throw. Modelled from the spec:
  \<^verbatim>\<open>warn\<close> of \<^verbatim>\<open>./warning\<close> (missing from the sources) emits a non-fatal diagnostic; it
  leaves the state alone and returns. The word chosen by \<^verbatim>\<open>isReadonly\<close> is part of the text
  only.
\<close>

definition dev_warning :: "state \<Rightarrow> val \<Rightarrow> error + unit" where
  "dev_warning s target = (if DEV s then js_String s target else Inr ())"

text \<open>
  \<^verbatim>\<open>createReactiveObject\<close>. The guard of step 2 is
  \<^verbatim>\<open>target[RAW] && !(isReadonly && target[IS_REACTIVE])\<close>, read with JavaScript's
  short-circuit order.
\<close>

definition already_proxy :: "state \<Rightarrow> val \<Rightarrow> bool \<Rightarrow> error + bool" where
  "already_proxy s target isReadonly' =
     (case get_prop s target RAW of
        Inl e \<Rightarrow> Inl e
      | Inr raw \<Rightarrow>
          if \<not> truthy raw then Inr False
          else if \<not> isReadonly' then Inr True
          else (case get_prop s target IS_REACTIVE of
                  Inl e \<Rightarrow> Inl e
                | Inr r \<Rightarrow> Inr (\<not> truthy r)))"

definition createReactiveObject ::
  "state \<Rightarrow> val \<Rightarrow> bool \<Rightarrow> handlers \<Rightarrow> handlers \<Rightarrow> ProxyMap \<Rightarrow> error + (val \<times> state)" where
  "createReactiveObject s target isReadonly' baseHandlers collectionHandlers proxyMap =
     (if \<not> isObject s target
      then (case dev_warning s target of Inl e \<Rightarrow> Inl e | Inr u \<Rightarrow> Inr (target, s))
      else case already_proxy s target isReadonly' of
        Inl e \<Rightarrow> Inl e
      | Inr True \<Rightarrow> Inr (target, s)
      | Inr False \<Rightarrow>
          (case proxyMap_get s proxyMap target of
             Some existingProxy \<Rightarrow> Inr (VRef existingProxy, s)
           | None \<Rightarrow>
               (case getTargetType s target of
                  Inl e \<Rightarrow> Inl e
                | Inr targetType \<Rightarrow>
                    if targetType = INVALID then Inr (target, s)
                    else
                      (case new_Proxy s target
                              (if targetType = COLLECTION then collectionHandlers
                               else baseHandlers) of
                         Inl e \<Rightarrow> Inl e
                       | Inr (proxy, s1) \<Rightarrow>
                           (case proxyMap_set s1 proxyMap target proxy of
                              Inl e \<Rightarrow> Inl e
                            | Inr s2 \<Rightarrow> Inr (proxy, s2))))))"

definition reactive :: "state \<Rightarrow> val \<Rightarrow> error + (val \<times> state)" where
  "reactive s target =
     (case isReadonly s target of
        Inl e \<Rightarrow> Inl e
      | Inr True \<Rightarrow> Inr (target, s)
      | Inr False \<Rightarrow>
          createReactiveObject s target False mutableHandlers mutableCollectionHandlers
            ReactiveMap)"

definition shallowReactive :: "state \<Rightarrow> val \<Rightarrow> error + (val \<times> state)" where
  "shallowReactive s target =
     createReactiveObject s target False shallowReactiveHandlers shallowCollectionHandlers
       ShallowReactiveMap"

definition readonly :: "state \<Rightarrow> val \<Rightarrow> error + (val \<times> state)" where
  "readonly s target =
     createReactiveObject s target True readonlyHandlers readonlyCollectionHandlers
       ReadonlyMap"

definition shallowReadonly :: "state \<Rightarrow> val \<Rightarrow> error + (val \<times> state)" where
  "shallowReadonly s target =
     createReactiveObject s target True shallowReadonlyHandlers
       shallowReadonlyCollectionHandlers ShallowReadonlyMap"

definition markRaw :: "state \<Rightarrow> val \<Rightarrow> error + (val \<times> state)" where
  "markRaw s v =
     (case hasOwn s v SKIP of
        Inl e \<Rightarrow> Inl e
      | Inr own \<Rightarrow>
          if \<not> own \<and> isExtensible s v
          then (case def s v SKIP (VBool True) of Inl e \<Rightarrow> Inl e | Inr s1 \<Rightarrow> Inr (v, s1))
          else Inr (v, s))"

definition toReactive :: "state \<Rightarrow> val \<Rightarrow> error + (val \<times> state)" where
  "toReactive s v = (if isObject s v then reactive s v else Inr (v, s))"

definition toReadonly :: "state \<Rightarrow> val \<Rightarrow> error + (val \<times> state)" where
  "toReadonly s v = (if isObject s v then readonly s v else Inr (v, s))"

section \<open>Modes, programs and well-formed states\<close>

text \<open>
  The four modes of the public constructors; \<open>wrap m\<close> is the constructor of mode \<open>m\<close>
  and \<open>mode_registry m\<close> the registry it uses.
\<close>

datatype mode = MutableDeep | MutableShallow | ReadonlyDeep | ReadonlyShallow

fun wrap :: "mode \<Rightarrow> state \<Rightarrow> val \<Rightarrow> error + (val \<times> state)" where
  "wrap MutableDeep s x = reactive s x"
| "wrap MutableShallow s x = shallowReactive s x"
| "wrap ReadonlyDeep s x = readonly s x"
| "wrap ReadonlyShallow s x = shallowReadonly s x"

fun mode_registry :: "mode \<Rightarrow> ProxyMap" where
  "mode_registry MutableDeep = ReactiveMap"
| "mode_registry MutableShallow = ShallowReactiveMap"
| "mode_registry ReadonlyDeep = ReadonlyMap"
| "mode_registry ReadonlyShallow = ShallowReadonlyMap"

fun mode_handlers :: "mode \<Rightarrow> handlers \<times> handlers" where
  "mode_handlers MutableDeep = (mutableHandlers, mutableCollectionHandlers)"
| "mode_handlers MutableShallow = (shallowReactiveHandlers, shallowCollectionHandlers)"
| "mode_handlers ReadonlyDeep = (readonlyHandlers, readonlyCollectionHandlers)"
| "mode_handlers ReadonlyShallow = (shallowReadonlyHandlers, shallowReadonlyCollectionHandlers)"

fun mode_readonly :: "mode \<Rightarrow> bool" where
  "mode_readonly MutableDeep = False"
| "mode_readonly MutableShallow = False"
| "mode_readonly ReadonlyDeep = True"
| "mode_readonly ReadonlyShallow = True"

text \<open>
  A client program is a sequence of state-changing calls. A call that throws has changed
  nothing (the throwing steps, \<^verbatim>\<open>hasOwn\<close> on \<^verbatim>\<open>null\<close> or \<^verbatim>\<open>undefined\<close> and the
  development warning on a non-object, precede every mutation), so the program goes on
  from the same state.
\<close>

datatype op = OpWrap mode val | OpMarkRaw val | OpToReactive val | OpToReadonly val

fun exec_op :: "state \<Rightarrow> op \<Rightarrow> error + (val \<times> state)" where
  "exec_op s (OpWrap m v) = wrap m s v"
| "exec_op s (OpMarkRaw v) = markRaw s v"
| "exec_op s (OpToReactive v) = toReactive s v"
| "exec_op s (OpToReadonly v) = toReadonly s v"

fun run :: "state \<Rightarrow> op list \<Rightarrow> state" where
  "run s [] = s"
| "run s (c # cs) = (case exec_op s c of Inl e \<Rightarrow> run s cs | Inr (r, s1) \<Rightarrow> run s1 cs)"

text \<open>
  Well-formed states. In the heap a proxy comes after its target; a registry of a mode
  holds, under the address of a target, a proxy over that very target whose handler has
  the readonly-ness of the mode.
\<close>

definition heap_ok :: "cell list \<Rightarrow> bool" where
  "heap_ok h = (\<forall>a<length h. case h ! a of Obj ob \<Rightarrow> True | Proxy t hs \<Rightarrow> t < a)"

definition registry_ok :: "cell list \<Rightarrow> bool \<Rightarrow> (addr \<times> addr) list \<Rightarrow> bool" where
  "registry_ok h ro m =
     (\<forall>(k, p)\<in>set m.
        case cell_at h p of
          Some (Proxy t hs) \<Rightarrow> t = k \<and> handler_readonly hs = ro
        | _ \<Rightarrow> False)"

definition wf :: "state \<Rightarrow> bool" where
  "wf s =
     (heap_ok (heap s)
      \<and> registry_ok (heap s) False (reactiveMap s)
      \<and> registry_ok (heap s) False (shallowReactiveMap s)
      \<and> registry_ok (heap s) True (readonlyMap s)
      \<and> registry_ok (heap s) True (shallowReadonlyMap s))"

text \<open>
  A value on which the constructors do not throw: an object, or a non-object for which
  the development warning returns.
\<close>

definition quiet :: "state \<Rightarrow> val \<Rightarrow> bool" where
  "quiet s v = (isObject s v \<or> dev_warning s v = Inr ())"

text \<open>A value that is no reference, or a reference into the heap.\<close>

definition valid :: "state \<Rightarrow> val \<Rightarrow> bool" where
  "valid s v = (case v of VRef a \<Rightarrow> a < length (heap s) | _ \<Rightarrow> True)"

text \<open>
  An eligible original: an object that carries neither the raw nor the readonly flag and
  that the classifier accepts.
\<close>

definition eligible :: "state \<Rightarrow> val \<Rightarrow> bool" where
  "eligible s x =
     (isObject s x \<and> isProxy s x = Inr False \<and> isReadonly s x = Inr False
      \<and> (getTargetType s x = Inr COMMON \<or> getTargetType s x = Inr COLLECTION))"

text \<open>
  The chain of raw flags from a value, followed for at most \<open>n\<close> steps: \<open>Some x\<close> when it
  reaches a value \<open>x\<close> that carries no raw flag. Likewise the chain that \<^verbatim>\<open>isReactive\<close>
  follows: through the raw flag of every value that reports readonly.
\<close>

fun raw_chain :: "nat \<Rightarrow> state \<Rightarrow> val \<Rightarrow> val option" where
  "raw_chain 0 s v = None"
| "raw_chain (Suc n) s v =
     (if isProxy s v = Inr True
      then (case get_prop s v RAW of Inl e \<Rightarrow> None | Inr raw \<Rightarrow> raw_chain n s raw)
      else Some v)"

fun readonly_chain :: "nat \<Rightarrow> state \<Rightarrow> val \<Rightarrow> val option" where
  "readonly_chain 0 s v = None"
| "readonly_chain (Suc n) s v =
     (if isReadonly s v = Inr True
      then (case get_prop s v RAW of Inl e \<Rightarrow> None | Inr raw \<Rightarrow> readonly_chain n s raw)
      else Some v)"

text \<open>
  What a wrapping call may do to the state. It throws only in the development warning on
  a non-object, before any step that touches the state. When it returns, every cell that
  was in the heap is as it was, and so are all reads of properties, own-property tests and
  extensibility of the values at hand; no registry but the one of the call changes; and
  the state is either the same, or has one more cell, a proxy over the target, and one more
  registry entry, from the target to that proxy.
\<close>

definition wrapping_frame :: "state \<Rightarrow> val \<Rightarrow> ProxyMap \<Rightarrow> error + (val \<times> state) \<Rightarrow> bool" where
  "wrapping_frame s t pm res =
     (case res of
        Inl e \<Rightarrow> \<not> isObject s t \<and> dev_warning s t = Inl e
      | Inr (w, s') \<Rightarrow>
          (\<forall>a<length (heap s). cell_at (heap s') a = cell_at (heap s) a)
          \<and> (\<forall>v key. valid s v \<longrightarrow>
                 get_prop s' v key = get_prop s v key
               \<and> hasOwn s' v key = hasOwn s v key
               \<and> isExtensible s' v = isExtensible s v)
          \<and> (\<forall>pm'. pm' \<noteq> pm \<longrightarrow> registry s' pm' = registry s pm')
          \<and> (s' = s
               \<or> (\<exists>a hs. t = VRef a \<and> map_of (registry s pm) a = None
                     \<and> s' = registry_update (s\<lparr>heap := heap s @ [Proxy a hs]\<rparr>)
                               pm a (length (heap s)))))"

text \<open>
  An object that has opted out: the ordinary object \<open>ob\<close> at address \<open>a\<close> carries the
  skip flag or is not extensible, no registry has an entry for it, and the constructors
  do not throw on it.
\<close>

definition opted_out :: "state \<Rightarrow> addr \<Rightarrow> obj \<Rightarrow> bool" where
  "opted_out s a ob =
     (cell_at (heap s) a = Some (Obj ob)
      \<and> (truthy (own_get ob SKIP) \<or> \<not> extensible ob)
      \<and> quiet s (VRef a)
      \<and> map_of (reactiveMap s) a = None \<and> map_of (shallowReactiveMap s) a = None
      \<and> map_of (readonlyMap s) a = None \<and> map_of (shallowReadonlyMap s) a = None)"

text \<open>
  \<open>layered k s v x\<close>: the value \<open>v\<close> is \<open>x\<close> under \<open>k\<close> layers of proxies.
\<close>

fun layered :: "nat \<Rightarrow> state \<Rightarrow> val \<Rightarrow> val \<Rightarrow> bool" where
  "layered 0 s v x = (v = x)"
| "layered (Suc k) s v x =
     (case v of
        VRef p \<Rightarrow>
          (case cell_at (heap s) p of
             Some (Proxy t hs) \<Rightarrow> layered k s (VRef t) x
           | _ \<Rightarrow> False)
      | _ \<Rightarrow> False)"

section \<open>Example states\<close>

definition counter :: obj where
  "counter = \<lparr>rawType = ''Object'', callable = False, printable = True, extensible = True,
               props = [(''count'', VNum 0)]\<rparr>"

text \<open>A development build with nothing wrapped yet.\<close>

definition empty_state :: "cell list \<Rightarrow> state" where
  "empty_state h = \<lparr>DEV = True, heap = h, reactiveMap = [], shallowReactiveMap = [],
                     readonlyMap = [], shallowReadonlyMap = []\<rparr>"

text \<open>\<^verbatim>\<open>x = {count: 0}\<close>, then \<^verbatim>\<open>reactive(x)\<close>, then \<^verbatim>\<open>readonly(reactive(x))\<close>.\<close>

definition s_plain :: state where
  "s_plain = empty_state [Obj counter]"

definition s_reactive :: state where
  "s_reactive = (empty_state [Obj counter, Proxy 0 mutableHandlers])\<lparr>reactiveMap := [(0, 1)]\<rparr>"

definition s_layered :: state where
  "s_layered =
     (empty_state [Obj counter, Proxy 0 mutableHandlers, Proxy 1 readonlyHandlers])
       \<lparr>reactiveMap := [(0, 1)], readonlyMap := [(1, 2)]\<rparr>"

text \<open>\<^verbatim>\<open>readonly(x)\<close> on the fresh \<open>x\<close>.\<close>

definition s_readonly :: state where
  "s_readonly = (empty_state [Obj counter, Proxy 0 readonlyHandlers])\<lparr>readonlyMap := [(0, 1)]\<rparr>"

text \<open>\<^verbatim>\<open>markRaw(x)\<close> on the fresh \<open>x\<close>.\<close>

definition s_skip :: state where
  "s_skip = empty_state [Obj (counter\<lparr>props := [(''count'', VNum 0), (SKIP, VBool True)]\<rparr>)]"

text \<open>\<^verbatim>\<open>reactive(x)\<close> followed by \<^verbatim>\<open>markRaw(x)\<close>.\<close>

definition s_marked :: state where
  "s_marked =
     (empty_state [Obj (counter\<lparr>props := [(''count'', VNum 0), (SKIP, VBool True)]\<rparr>),
                   Proxy 0 mutableHandlers])\<lparr>reactiveMap := [(0, 1)]\<rparr>"

text \<open>
  Ordinary objects that were never wrapped and carry reserved keys as own properties:
  \<^verbatim>\<open>{__v_raw: 1}\<close>, \<^verbatim>\<open>{__v_raw: 1, __v_isReactive: true}\<close>, \<^verbatim>\<open>{__v_isReadonly: true}\<close>,
  and \<^verbatim>\<open>c = {__v_isReadonly: true}; c.__v_raw = c\<close>.
\<close>

definition s_spoof :: state where
  "s_spoof = empty_state
     [Obj (counter\<lparr>props := [(RAW, VNum 1)]\<rparr>),
      Obj (counter\<lparr>props := [(RAW, VNum 1), (IS_REACTIVE, VBool True)]\<rparr>),
      Obj (counter\<lparr>props := [(IS_READONLY, VBool True)]\<rparr>),
      Obj (counter\<lparr>props := [(IS_READONLY, VBool True), (RAW, VRef 3)]\<rparr>)]"

text \<open>
  A function whose conversion to a string throws: \<^verbatim>\<open>f = () => {}; f.toString = 1\<close>.
\<close>

definition s_fn :: state where
  "s_fn = empty_state
     [Obj \<lparr>rawType = ''Function'', callable = True, printable = False, extensible = True,
           props = [(''toString'', VNum 1)]\<rparr>]"

text \<open>The same \<open>f\<close> after \<^verbatim>\<open>markRaw(f)\<close>, and the same \<open>f\<close> after \<^verbatim>\<open>f.__v_raw = 1\<close>.\<close>

definition s_fn_skip :: state where
  "s_fn_skip = empty_state
     [Obj \<lparr>rawType = ''Function'', callable = True, printable = False, extensible = True,
           props = [(''toString'', VNum 1), (SKIP, VBool True)]\<rparr>]"

definition s_fn_raw :: state where
  "s_fn_raw = empty_state
     [Obj \<lparr>rawType = ''Function'', callable = True, printable = False, extensible = True,
           props = [(''toString'', VNum 1), (RAW, VNum 1)]\<rparr>]"

section \<open>The heap under allocation\<close>

lemma cell_at_append_old: "a < length h \<Longrightarrow> cell_at (h @ [c]) a = cell_at h a"
  by (simp add: cell_at_def nth_append)

lemma cell_at_append_new: "cell_at (h @ [c]) (length h) = Some c"
  by (simp add: cell_at_def)

lemma cell_at_Some_less: "cell_at h a = Some c \<Longrightarrow> a < length h"
  by (simp add: cell_at_def split: if_splits)

lemma resolve_le: "resolve h a \<le> a"
proof (induction h a rule: resolve.induct)
  case (1 h a)
  show ?case
  proof (cases "cell_at h a")
    case None
    then show ?thesis by (simp add: resolve.simps [of h a])
  next
    case (Some c)
    show ?thesis
    proof (cases c)
      case (Obj ob)
      with Some show ?thesis by (simp add: resolve.simps [of h a])
    next
      case (Proxy t hs)
      with Some 1 show ?thesis by (auto simp add: resolve.simps [of h a])
    qed
  qed
qed

lemma resolve_append_old: "a < length h \<Longrightarrow> resolve (h @ [c]) a = resolve h a"
proof (induction h a rule: resolve.induct)
  case (1 h a)
  show ?case
  proof (cases "cell_at h a")
    case None
    with 1 show ?thesis by (simp add: cell_at_def)
  next
    case (Some d)
    show ?thesis
    proof (cases d)
      case (Obj ob)
      with Some 1 show ?thesis
        by (simp add: resolve.simps [of h a] resolve.simps [of "h @ [c]" a] cell_at_append_old)
    next
      case (Proxy t hs)
      with Some 1 show ?thesis
        by (auto simp add: resolve.simps [of h a] resolve.simps [of "h @ [c]" a] cell_at_append_old)
    qed
  qed
qed

lemma resolve_Obj: "cell_at h a = Some (Obj ob) \<Longrightarrow> resolve h a = a"
  by (simp add: resolve.simps [of h a])

lemma resolve_None: "cell_at h a = None \<Longrightarrow> resolve h a = a"
  by (simp add: resolve.simps [of h a])

lemma resolve_Proxy: "cell_at h a = Some (Proxy t hs) \<Longrightarrow> t < a \<Longrightarrow> resolve h a = resolve h t"
  by (simp add: resolve.simps [of h a])

lemma base_obj_append_old: "a < length h \<Longrightarrow> base_obj (h @ [c]) a = base_obj h a"
  using resolve_le [of h a]
  by (simp add: base_obj_def resolve_append_old cell_at_append_old)

lemma js_get_append_old: "a < length h \<Longrightarrow> js_get (h @ [c]) a key = js_get h a key"
  by (simp add: js_get_def cell_at_append_old base_obj_append_old
        cong: option.case_cong cell.case_cong)

lemma js_get_append_new:
  "js_get (h @ [Proxy t hs]) (length h) key =
     (case handler_get t hs key of Some v \<Rightarrow> v
      | None \<Rightarrow> (case base_obj (h @ [Proxy t hs]) (length h) of Some ob \<Rightarrow> own_get ob key | None \<Rightarrow> VUndefined))"
  by (simp add: js_get_def cell_at_append_new)

lemma resolve_append_new:
  "t < length h \<Longrightarrow> resolve (h @ [Proxy t hs]) (length h) = resolve h t"
  by (simp add: resolve.simps [of "h @ [Proxy t hs]" "length h"] cell_at_append_new resolve_append_old)

lemma base_obj_append_new:
  "t < length h \<Longrightarrow> base_obj (h @ [Proxy t hs]) (length h) = base_obj h t"
  using resolve_le [of h t]
  by (simp add: base_obj_def resolve_append_new cell_at_append_old)

lemma base_obj_Some_less: "base_obj h a = Some ob \<Longrightarrow> a < length h"
  by (cases "cell_at h a") (auto simp: base_obj_def resolve_None cell_at_def split: option.splits cell.splits if_splits)

lemma isObject_VRef: "isObject s v \<Longrightarrow> \<exists>a. v = VRef a \<and> a < length (heap s)"
  by (auto simp: isObject_def split: val.splits option.splits dest: base_obj_Some_less)

lemma heap_registry_update [simp]: "heap (registry_update s pm k p) = heap s"
  by (cases pm) simp_all

lemma registry_registry_update:
  "registry (registry_update s pm k p) pm' =
     (if pm' = pm then AList.update k p (registry s pm) else registry s pm')"
  by (cases pm; cases pm') simp_all

declare registry_update.simps [simp del]

lemma dev_warning_cases:
  obtains (returns) "dev_warning s t = Inr ()" | (throws) e where "dev_warning s t = Inl e"
  by (cases "dev_warning s t") auto

lemma quiet_object [simp]: "isObject s t \<Longrightarrow> quiet s t"
  by (simp add: quiet_def)

lemma createReactiveObject_non_object:
  "\<not> isObject s t \<Longrightarrow>
   createReactiveObject s t ro bh ch pm =
     (case dev_warning s t of Inl e \<Rightarrow> Inl e | Inr u \<Rightarrow> Inr (t, s))"
  by (simp add: createReactiveObject_def)

lemma createReactiveObject_quiet_non_object:
  "\<not> isObject s t \<Longrightarrow> quiet s t \<Longrightarrow> createReactiveObject s t ro bh ch pm = Inr (t, s)"
  by (simp add: createReactiveObject_non_object quiet_def)

lemma cro_cases [consumes 0, case_names same hit fresh threw]:
  obtains
    (same) "quiet s t" "createReactiveObject s t ro bh ch pm = Inr (t, s)"
  | (hit) a p where "t = VRef a" "a < length (heap s)" "isObject s t"
      "already_proxy s t ro = Inr False"
      "map_of (registry s pm) a = Some p"
      "createReactiveObject s t ro bh ch pm = Inr (VRef p, s)"
  | (fresh) a tt where "t = VRef a" "a < length (heap s)" "isObject s t"
      "already_proxy s t ro = Inr False"
      "map_of (registry s pm) a = None" "getTargetType s t = Inr tt" "tt \<noteq> INVALID"
      "createReactiveObject s t ro bh ch pm =
         Inr (VRef (length (heap s)),
              registry_update (s\<lparr>heap := heap s @ [Proxy a (if tt = COLLECTION then ch else bh)]\<rparr>)
                pm a (length (heap s)))"
  | (threw) e where "\<not> isObject s t" "dev_warning s t = Inl e"
      "createReactiveObject s t ro bh ch pm = Inl e"
proof (cases "isObject s t")
  case False
  show ?thesis
  proof (cases rule: dev_warning_cases [of s t])
    case returns
    with False show ?thesis
      by (intro same) (simp_all add: quiet_def createReactiveObject_non_object)
  next
    case (throws e)
    with False show ?thesis
      by (intro threw [of e]) (simp_all add: createReactiveObject_non_object)
  qed
next
  case True
  then obtain a where a: "t = VRef a" "a < length (heap s)"
    using isObject_VRef by blast
  have ap: "\<exists>b. already_proxy s t ro = Inr b"
    using a by (auto simp: already_proxy_def)
  then obtain b where b: "already_proxy s t ro = Inr b" by blast
  show ?thesis
  proof (cases b)
    case True
    with b \<open>isObject s t\<close> have "createReactiveObject s t ro bh ch pm = Inr (t, s)"
      by (simp add: createReactiveObject_def)
    with \<open>isObject s t\<close> show ?thesis by (intro same) simp_all
  next
    case False
    note nb = False
    show ?thesis
    proof (cases "map_of (registry s pm) a")
      case (Some p)
      with b nb a \<open>isObject s t\<close> have "createReactiveObject s t ro bh ch pm = Inr (VRef p, s)"
        by (simp add: createReactiveObject_def proxyMap_get_def)
      with a \<open>isObject s t\<close> b nb Some show ?thesis by (auto intro: hit)
    next
      case None
      obtain tt where tt: "getTargetType s t = Inr tt"
        using a by (simp add: getTargetType_def)
      show ?thesis
      proof (cases "tt = INVALID")
        case True
        with b nb a \<open>isObject s t\<close> None tt
        have "createReactiveObject s t ro bh ch pm = Inr (t, s)"
          by (simp add: createReactiveObject_def proxyMap_get_def)
        with \<open>isObject s t\<close> show ?thesis by (intro same) simp_all
      next
        case False
        with b nb a \<open>isObject s t\<close> None tt
        have "createReactiveObject s t ro bh ch pm =
          Inr (VRef (length (heap s)),
              registry_update (s\<lparr>heap := heap s @ [Proxy a (if tt = COLLECTION then ch else bh)]\<rparr>)
                pm a (length (heap s)))"
          by (simp add: createReactiveObject_def proxyMap_get_def new_Proxy_def proxyMap_set_def)
        with a \<open>isObject s t\<close> b nb None tt False show ?thesis by (auto intro: fresh)
      qed
    qed
  qed
qed


subsection \<open>Reads survive an allocation\<close>

lemma get_prop_ext:
  "heap s' = heap s @ [c] \<Longrightarrow> valid s v \<Longrightarrow> get_prop s' v key = get_prop s v key"
  by (cases v) (simp_all add: valid_def js_get_append_old)

lemma isObject_ext: "heap s' = heap s @ [c] \<Longrightarrow> valid s v \<Longrightarrow> isObject s' v = isObject s v"
  by (cases v) (simp_all add: valid_def isObject_def base_obj_append_old)

lemma dev_warning_ext:
  "heap s' = heap s @ [c] \<Longrightarrow> valid s v \<Longrightarrow> DEV s' = DEV s \<Longrightarrow>
   dev_warning s' v = dev_warning s v"
  by (cases v) (simp_all add: valid_def dev_warning_def js_String_def base_obj_append_old)

lemma isExtensible_ext:
  "heap s' = heap s @ [c] \<Longrightarrow> valid s v \<Longrightarrow> isExtensible s' v = isExtensible s v"
  by (cases v) (simp_all add: valid_def isExtensible_def base_obj_append_old)

lemma toRawType_ext:
  "heap s' = heap s @ [c] \<Longrightarrow> valid s v \<Longrightarrow> toRawType s' v = toRawType s v"
  by (cases v) (simp_all add: valid_def base_obj_append_old)

lemma isReadonly_ext:
  "heap s' = heap s @ [c] \<Longrightarrow> valid s v \<Longrightarrow> isReadonly s' v = isReadonly s v"
  by (simp add: isReadonly_def get_prop_ext)

lemma isProxy_ext:
  "heap s' = heap s @ [c] \<Longrightarrow> valid s v \<Longrightarrow> isProxy s' v = isProxy s v"
  by (simp add: isProxy_def get_prop_ext)

lemma already_proxy_ext:
  "heap s' = heap s @ [c] \<Longrightarrow> valid s v \<Longrightarrow> already_proxy s' v ro = already_proxy s v ro"
  by (simp add: already_proxy_def get_prop_ext cong: sum.case_cong if_cong)

lemma getTargetType_ext:
  "heap s' = heap s @ [c] \<Longrightarrow> valid s v \<Longrightarrow> getTargetType s' v = getTargetType s v"
  by (simp add: getTargetType_def get_prop_ext isExtensible_ext toRawType_ext
        cong: sum.case_cong if_cong)

lemma isObject_valid: "isObject s v \<Longrightarrow> valid s v"
  by (auto simp: valid_def dest: isObject_VRef)

subsection \<open>Totality of the simple predicates\<close>

lemma isReadonly_total: "\<exists>b. isReadonly s v = Inr b"
  by (cases v) (auto simp: isReadonly_def)

lemma isShallow_total: "\<exists>b. isShallow s v = Inr b"
  by (cases v) (auto simp: isShallow_def)

lemma isProxy_total: "\<exists>b. isProxy s v = Inr b"
  by (cases v) (auto simp: isProxy_def)

lemma wrap_unfold:
  "wrap m s x =
     (if m = MutableDeep \<and> isReadonly s x = Inr True then Inr (x, s)
      else createReactiveObject s x (mode_readonly m) (fst (mode_handlers m))
             (snd (mode_handlers m)) (mode_registry m))"
proof -
  obtain b where "isReadonly s x = Inr b" using isReadonly_total by blast
  then show ?thesis
    by (cases m; cases b)
       (simp_all add: reactive_def shallowReactive_def readonly_def shallowReadonly_def)
qed

lemma wrap_non_object:
  "\<not> isObject s x \<Longrightarrow>
   wrap m s x =
     (if m = MutableDeep \<and> isReadonly s x = Inr True then Inr (x, s)
      else case dev_warning s x of Inl e \<Rightarrow> Inl e | Inr u \<Rightarrow> Inr (x, s))"
  by (simp add: wrap_unfold createReactiveObject_non_object)

section \<open>The re-wrap rule\<close>

lemma already_proxy_flags:
  assumes "get_prop s target RAW = Inr raw" and "get_prop s target IS_REACTIVE = Inr r"
  shows "already_proxy s target ro = Inr (truthy raw \<and> \<not> (ro \<and> truthy r))"
  using assms by (simp add: already_proxy_def)

text \<open>
  C2 (amended). A target that carries a raw flag is returned unchanged, and the state with
  it, unless it is an object, the requested mode is readonly and the target reports
  is-reactive (a target that \<^verbatim>\<open>isObject\<close> rejects is returned after the development
  warning, if that does not throw). In that one case the factory goes on with its
  remaining steps: it returns the proxy registered for the target if there is one, the
  target itself if the classifier rejects it, and otherwise a new proxy over the target,
  which it registers.
\<close>

theorem rewrap_rule:
  assumes raw: "get_prop s target RAW = Inr raw" "truthy raw"
    and r: "get_prop s target IS_REACTIVE = Inr r"
  shows "((\<not> (ro \<and> truthy r) \<or> \<not> isObject s target) \<and> quiet s target \<longrightarrow>
            createReactiveObject s target ro bh ch pm = Inr (target, s))
       \<and> (ro \<and> truthy r \<and> isObject s target \<longrightarrow>
            (case proxyMap_get s pm target of
               Some p \<Rightarrow> createReactiveObject s target ro bh ch pm = Inr (VRef p, s)
             | None \<Rightarrow>
                 (case getTargetType s target of
                    Inl e \<Rightarrow> False
                  | Inr tt \<Rightarrow>
                      if tt = INVALID
                      then createReactiveObject s target ro bh ch pm = Inr (target, s)
                      else (case createReactiveObject s target ro bh ch pm of
                              Inl e \<Rightarrow> False
                            | Inr (w, s') \<Rightarrow>
                                w = VRef (length (heap s))
                                \<and> (\<exists>a. target = VRef a
                                       \<and> heap s' = heap s @ [Proxy a (if tt = COLLECTION then ch else bh)])
                                \<and> proxyMap_get s' pm target = Some (length (heap s))))))"
proof (intro conjI impI)
  assume n: "(\<not> (ro \<and> truthy r) \<or> \<not> isObject s target) \<and> quiet s target"
  show "createReactiveObject s target ro bh ch pm = Inr (target, s)"
  proof (cases "isObject s target")
    case True
    with n raw r have "already_proxy s target ro = Inr True"
      by (simp add: already_proxy_flags)
    with True show ?thesis by (simp add: createReactiveObject_def)
  next
    case False
    with n show ?thesis by (simp add: createReactiveObject_quiet_non_object)
  qed
next
  assume a: "ro \<and> truthy r \<and> isObject s target"
  with raw r have ap: "already_proxy s target ro = Inr False"
    by (simp add: already_proxy_flags)
  from a obtain a' where t: "target = VRef a'" using isObject_VRef by blast
  then obtain tt where tt: "getTargetType s target = Inr tt"
    by (simp add: getTargetType_def)
  show "case proxyMap_get s pm target of
          Some p \<Rightarrow> createReactiveObject s target ro bh ch pm = Inr (VRef p, s)
        | None \<Rightarrow>
            (case getTargetType s target of
               Inl e \<Rightarrow> False
             | Inr tt \<Rightarrow>
                 if tt = INVALID
                 then createReactiveObject s target ro bh ch pm = Inr (target, s)
                 else (case createReactiveObject s target ro bh ch pm of
                         Inl e \<Rightarrow> False
                       | Inr (w, s') \<Rightarrow>
                           w = VRef (length (heap s))
                           \<and> (\<exists>a. target = VRef a
                                  \<and> heap s' = heap s @ [Proxy a (if tt = COLLECTION then ch else bh)])
                           \<and> proxyMap_get s' pm target = Some (length (heap s))))"
  proof (cases "proxyMap_get s pm target")
    case (Some p)
    with a ap show ?thesis by (simp add: createReactiveObject_def)
  next
    case None
    show ?thesis
    proof (cases "tt = INVALID")
      case True
      with None a ap tt show ?thesis by (simp add: createReactiveObject_def)
    next
      case False
      with None a ap tt t show ?thesis
        by (simp add: createReactiveObject_def new_Proxy_def proxyMap_set_def
            proxyMap_get_def registry_registry_update update_conv')
    qed
  qed
qed

theorem rewrap_rule_witness:
  "get_prop s_reactive (VRef 1) RAW = Inr (VRef 0) \<and> truthy (VRef 0)
   \<and> get_prop s_reactive (VRef 1) IS_REACTIVE = Inr (VBool True)
   \<and> quiet s_reactive (VRef 1) \<and> isObject s_reactive (VRef 1)
   \<and> createReactiveObject s_reactive (VRef 1) False shallowReactiveHandlers
        shallowCollectionHandlers ShallowReactiveMap = Inr (VRef 1, s_reactive)
   \<and> proxyMap_get s_reactive ReadonlyMap (VRef 1) = None
   \<and> getTargetType s_reactive (VRef 1) = Inr COMMON
   \<and> createReactiveObject s_reactive (VRef 1) True readonlyHandlers
        readonlyCollectionHandlers ReadonlyMap = Inr (VRef 2, s_layered)
   \<and> proxyMap_get s_layered ReadonlyMap (VRef 1) = Some 2"
proof -
  have h1: "get_prop s_reactive (VRef 1) RAW = Inr (VRef 0)" by code_simp
  have h2: "truthy (VRef 0)" by simp
  have h3: "get_prop s_reactive (VRef 1) IS_REACTIVE = Inr (VBool True)" by code_simp
  have q: "quiet s_reactive (VRef 1)" "isObject s_reactive (VRef 1)" by code_simp+
  have n: "proxyMap_get s_reactive ReadonlyMap (VRef 1) = None"
    "getTargetType s_reactive (VRef 1) = Inr COMMON" by code_simp+
  have l: "length (heap s_reactive) = 2" by code_simp
  have e: "createReactiveObject s_reactive (VRef 1) True readonlyHandlers
        readonlyCollectionHandlers ReadonlyMap = Inr (VRef 2, s_layered)" by code_simp
  from rewrap_rule [OF h1 h2 h3, of False shallowReactiveHandlers shallowCollectionHandlers
      ShallowReactiveMap] q
  have a: "createReactiveObject s_reactive (VRef 1) False shallowReactiveHandlers
        shallowCollectionHandlers ShallowReactiveMap = Inr (VRef 1, s_reactive)"
    by simp
  from rewrap_rule [OF h1 h2 h3, of True readonlyHandlers readonlyCollectionHandlers
      ReadonlyMap] q n e l
  have "proxyMap_get s_layered ReadonlyMap (VRef 1) = Some 2"
    by simp
  with h1 h2 h3 q n e a show ?thesis by simp
qed

text \<open>
  The claim as it stands fails in the excepted case where the classifier rejects the
  wrapper: after \<^verbatim>\<open>p = reactive(x)\<close> and \<^verbatim>\<open>markRaw(x)\<close>, \<^verbatim>\<open>readonly(p)\<close> is the case of a
  readonly request over a mutable-reactive wrapper, and the factory builds nothing: it
  returns \<open>p\<close>. It also fails, in a development build, on a function that carries a raw
  flag and whose string conversion throws, \<^verbatim>\<open>f = () => {}; f.toString = 1; f.__v_raw = 1\<close>:
  the factory throws in the warning of step 1.
\<close>

theorem rewrap_rule_counterexample:
  "reactive s_plain (VRef 0) = Inr (VRef 1, s_reactive)
   \<and> markRaw s_reactive (VRef 0) = Inr (VRef 0, s_marked)
   \<and> get_prop s_marked (VRef 1) RAW = Inr (VRef 0)
   \<and> get_prop s_marked (VRef 1) IS_REACTIVE = Inr (VBool True)
   \<and> isObject s_marked (VRef 1)
   \<and> createReactiveObject s_marked (VRef 1) True readonlyHandlers readonlyCollectionHandlers
        ReadonlyMap = Inr (VRef 1, s_marked)
   \<and> get_prop s_fn_raw (VRef 0) RAW = Inr (VNum 1)
   \<and> createReactiveObject s_fn_raw (VRef 0) False mutableHandlers mutableCollectionHandlers
        ReactiveMap = Inl TypeError"
  by code_simp

section \<open>Wrapping leaves the heap as it was\<close>

lemma hasOwn_ext:
  "heap s' = heap s @ [c] \<Longrightarrow> valid s v \<Longrightarrow> hasOwn s' v key = hasOwn s v key"
  by (cases v) (simp_all add: valid_def base_obj_append_old)

lemma createReactiveObject_frame:
  "wrapping_frame s t pm (createReactiveObject s t ro bh ch pm)"
proof (cases rule: cro_cases [of s t ro bh ch pm])
  case same
  then show ?thesis by (simp add: wrapping_frame_def)
next
  case (hit a p)
  then show ?thesis by (simp add: wrapping_frame_def)
next
  case (fresh a tt)
  let ?hs = "if tt = COLLECTION then ch else bh"
  let ?s' = "registry_update (s\<lparr>heap := heap s @ [Proxy a ?hs]\<rparr>) pm a (length (heap s))"
  have h: "heap ?s' = heap s @ [Proxy a ?hs]" by simp
  have "\<forall>b<length (heap s). cell_at (heap ?s') b = cell_at (heap s) b"
    by (simp add: cell_at_append_old)
  moreover have "\<forall>v key. valid s v \<longrightarrow>
       get_prop ?s' v key = get_prop s v key \<and> hasOwn ?s' v key = hasOwn s v key
       \<and> isExtensible ?s' v = isExtensible s v"
    using get_prop_ext [OF h] hasOwn_ext [OF h] isExtensible_ext [OF h] by blast
  moreover have "\<forall>pm'. pm' \<noteq> pm \<longrightarrow> registry ?s' pm' = registry s pm'"
    by (auto simp: registry_registry_update; case_tac pm'; simp)
  moreover have "?s' = s \<or> (\<exists>a' hs. t = VRef a' \<and> map_of (registry s pm) a' = None
       \<and> ?s' = registry_update (s\<lparr>heap := heap s @ [Proxy a' hs]\<rparr>) pm a' (length (heap s)))"
    using fresh(1,5) by blast
  ultimately show ?thesis
    unfolding wrapping_frame_def fresh(8) by (simp only: sum.case prod.case)
next
  case (threw e)
  then show ?thesis by (simp add: wrapping_frame_def)
qed

text \<open>
  C9. A call of the factory, or of any of the four constructors, leaves every cell of the
  heap as it was: the target and every other object keep their own properties and their
  extensibility, and every property read gives what it gave before. The state is either
  unchanged, or extended by one new proxy at a new address together with one entry for the
  target in the registry of the mode; no other registry changes. A call that throws, in
  the development warning on a value that \<^verbatim>\<open>isObject\<close> rejects, has touched nothing.
\<close>

theorem wrapping_never_mutates:
  "wrapping_frame s t pm (createReactiveObject s t ro bh ch pm)
   \<and> wrapping_frame s t (mode_registry m) (wrap m s t)"
proof
  show "wrapping_frame s t pm (createReactiveObject s t ro bh ch pm)"
    by (rule createReactiveObject_frame)
  show "wrapping_frame s t (mode_registry m) (wrap m s t)"
    by (simp add: wrap_unfold createReactiveObject_frame) (simp add: wrapping_frame_def)
qed

theorem wrapping_never_mutates_witness:
  "wrapping_frame s_plain (VRef 0) ReactiveMap (Inr (VRef 1, s_reactive))
   \<and> cell_at (heap s_reactive) 0 = Some (Obj counter)"
proof -
  have "wrap MutableDeep s_plain (VRef 0) = Inr (VRef 1, s_reactive)" by code_simp
  moreover have "cell_at (heap s_reactive) 0 = Some (Obj counter)" by code_simp
  ultimately show ?thesis
    using wrapping_never_mutates [of s_plain "VRef 0" ReactiveMap False mutableHandlers
        mutableCollectionHandlers MutableDeep]
    by simp
qed

section \<open>Ordinary objects that carry reserved keys\<close>

lemma get_prop_Obj:
  "cell_at (heap s) a = Some (Obj ob) \<Longrightarrow> get_prop s (VRef a) key = Inr (own_get ob key)"
  by (simp add: js_get_def)

text \<open>
  C10. The flags are read as ordinary properties. An ordinary object with a truthy own
  \<^verbatim>\<open>__v_raw\<close> is returned unchanged by \<^verbatim>\<open>reactive\<close> and \<^verbatim>\<open>shallowReactive\<close>, and by
  \<^verbatim>\<open>readonly\<close> and \<^verbatim>\<open>shallowReadonly\<close> unless its \<^verbatim>\<open>__v_isReactive\<close> is truthy too
  (it being a plain object, or else a function on which the development warning does not
  throw), and \<^verbatim>\<open>isProxy\<close> says true of it. An ordinary object with a truthy own
  \<^verbatim>\<open>__v_isReadonly\<close> is returned unchanged by \<^verbatim>\<open>reactive\<close>, and \<^verbatim>\<open>isReadonly\<close> says true
  of it. In the excepted case, when both \<^verbatim>\<open>__v_raw\<close> and \<^verbatim>\<open>__v_isReactive\<close> are truthy,
  \<^verbatim>\<open>readonly\<close> and \<^verbatim>\<open>shallowReadonly\<close> go on to wrap the object: if the classifier accepts
  it and it has no entry in their registries, each returns a new proxy.
\<close>

theorem flags_are_duck_typed:
  assumes "cell_at (heap s) a = Some (Obj ob)"
  shows "(truthy (own_get ob RAW) \<longrightarrow>
            isProxy s (VRef a) = Inr True
          \<and> (quiet s (VRef a) \<longrightarrow>
                reactive s (VRef a) = Inr (VRef a, s)
              \<and> shallowReactive s (VRef a) = Inr (VRef a, s)
              \<and> (\<not> truthy (own_get ob IS_REACTIVE) \<longrightarrow>
                    readonly s (VRef a) = Inr (VRef a, s)
                  \<and> shallowReadonly s (VRef a) = Inr (VRef a, s))))
       \<and> (truthy (own_get ob IS_READONLY) \<longrightarrow>
            reactive s (VRef a) = Inr (VRef a, s) \<and> isReadonly s (VRef a) = Inr True)
       \<and> (truthy (own_get ob RAW) \<and> truthy (own_get ob IS_REACTIVE)
            \<and> isObject s (VRef a) \<and> getTargetType s (VRef a) \<noteq> Inr INVALID
            \<and> map_of (readonlyMap s) a = None \<and> map_of (shallowReadonlyMap s) a = None \<longrightarrow>
            (\<exists>s'. readonly s (VRef a) = Inr (VRef (length (heap s)), s'))
          \<and> (\<exists>s'. shallowReadonly s (VRef a) = Inr (VRef (length (heap s)), s')))"
proof -
  note g = get_prop_Obj [OF assms]
  have ap: "already_proxy s (VRef a) ro =
              Inr (truthy (own_get ob RAW) \<and> \<not> (ro \<and> truthy (own_get ob IS_REACTIVE)))" for ro
    by (rule already_proxy_flags) (simp_all only: g)
  have cro: "createReactiveObject s (VRef a) ro bh ch pm = Inr (VRef a, s)"
    if "truthy (own_get ob RAW)" "\<not> (ro \<and> truthy (own_get ob IS_REACTIVE))"
      "quiet s (VRef a)" for ro bh ch pm
    using that ap [of ro]
    by (cases "isObject s (VRef a)")
       (simp add: createReactiveObject_def, simp add: createReactiveObject_quiet_non_object)
  have ro: "isReadonly s (VRef a) = Inr (truthy (own_get ob IS_READONLY))"
    by (simp only: isReadonly_def g truthy.simps if_True sum.case)
  have px: "isProxy s (VRef a) = Inr (truthy (own_get ob RAW))"
    by (simp only: isProxy_def g truthy.simps if_True sum.case)
  have wrapped: "\<exists>s'. createReactiveObject s (VRef a) True bh ch pm = Inr (VRef (length (heap s)), s')"
    if "truthy (own_get ob RAW)" "truthy (own_get ob IS_REACTIVE)" "isObject s (VRef a)"
      "getTargetType s (VRef a) \<noteq> Inr INVALID" "map_of (registry s pm) a = None"
    for bh ch pm
  proof -
    obtain tt where "getTargetType s (VRef a) = Inr tt" by (simp add: getTargetType_def)
    with that ap [of True] show ?thesis
      by (simp add: createReactiveObject_def proxyMap_get_def new_Proxy_def proxyMap_set_def)
  qed
  have first: "(truthy (own_get ob RAW) \<longrightarrow>
            isProxy s (VRef a) = Inr True
          \<and> (quiet s (VRef a) \<longrightarrow>
                reactive s (VRef a) = Inr (VRef a, s)
              \<and> shallowReactive s (VRef a) = Inr (VRef a, s)
              \<and> (\<not> truthy (own_get ob IS_REACTIVE) \<longrightarrow>
                    readonly s (VRef a) = Inr (VRef a, s)
                  \<and> shallowReadonly s (VRef a) = Inr (VRef a, s))))
       \<and> (truthy (own_get ob IS_READONLY) \<longrightarrow>
            reactive s (VRef a) = Inr (VRef a, s) \<and> isReadonly s (VRef a) = Inr True)"
    using cro ro px
    by (auto simp: reactive_def shallowReactive_def readonly_def shallowReadonly_def
        split: bool.splits)
  have second: "truthy (own_get ob RAW) \<and> truthy (own_get ob IS_REACTIVE)
            \<and> isObject s (VRef a) \<and> getTargetType s (VRef a) \<noteq> Inr INVALID
            \<and> map_of (readonlyMap s) a = None \<and> map_of (shallowReadonlyMap s) a = None \<longrightarrow>
            (\<exists>s'. readonly s (VRef a) = Inr (VRef (length (heap s)), s'))
          \<and> (\<exists>s'. shallowReadonly s (VRef a) = Inr (VRef (length (heap s)), s'))"
    using wrapped [of ReadonlyMap] wrapped [of ShallowReadonlyMap]
    by (simp add: readonly_def shallowReadonly_def)
  from first second show ?thesis by blast
qed

theorem flags_are_duck_typed_witness:
  "cell_at (heap s_spoof) 0 = Some (Obj (counter\<lparr>props := [(RAW, VNum 1)]\<rparr>))
   \<and> reactive s_spoof (VRef 0) = Inr (VRef 0, s_spoof)
   \<and> readonly s_spoof (VRef 0) = Inr (VRef 0, s_spoof)
   \<and> isProxy s_spoof (VRef 0) = Inr True
   \<and> cell_at (heap s_spoof) 1 =
       Some (Obj (counter\<lparr>props := [(RAW, VNum 1), (IS_REACTIVE, VBool True)]\<rparr>))
   \<and> reactive s_spoof (VRef 1) = Inr (VRef 1, s_spoof)
   \<and> (\<exists>s'. shallowReadonly s_spoof (VRef 1) = Inr (VRef 4, s'))"
proof -
  have h: "cell_at (heap s_spoof) 0 = Some (Obj (counter\<lparr>props := [(RAW, VNum 1)]\<rparr>))"
    by code_simp
  have t: "truthy (own_get (counter\<lparr>props := [(RAW, VNum 1)]\<rparr>) RAW)"
    "\<not> truthy (own_get (counter\<lparr>props := [(RAW, VNum 1)]\<rparr>) IS_REACTIVE)"
    "quiet s_spoof (VRef 0)"
    by code_simp+
  have h1: "cell_at (heap s_spoof) 1 =
      Some (Obj (counter\<lparr>props := [(RAW, VNum 1), (IS_REACTIVE, VBool True)]\<rparr>))"
    by code_simp
  have t1: "truthy (own_get (counter\<lparr>props := [(RAW, VNum 1), (IS_REACTIVE, VBool True)]\<rparr>) RAW)"
    "truthy (own_get (counter\<lparr>props := [(RAW, VNum 1), (IS_REACTIVE, VBool True)]\<rparr>)
       IS_REACTIVE)"
    "isObject s_spoof (VRef 1)" "quiet s_spoof (VRef 1)"
    "getTargetType s_spoof (VRef 1) \<noteq> Inr INVALID"
    "map_of (readonlyMap s_spoof) 1 = None" "map_of (shallowReadonlyMap s_spoof) 1 = None"
    "length (heap s_spoof) = 4"
    by code_simp+
  from flags_are_duck_typed [OF h1] t1
  have "reactive s_spoof (VRef 1) = Inr (VRef 1, s_spoof)"
    "\<exists>s'. shallowReadonly s_spoof (VRef 1) = Inr (VRef 4, s')"
    by simp_all
  with flags_are_duck_typed [OF h] t h h1 show ?thesis by simp
qed

section \<open>Well-formed states\<close>

lemma set_update_subset: "set (AList.update k v al) \<subseteq> insert (k, v) (set al)"
  by (induction al) auto

lemma registry_ok_lookup:
  assumes "registry_ok h ro m" and "map_of m k = Some p"
  shows "\<exists>hs. cell_at h p = Some (Proxy k hs) \<and> handler_readonly hs = ro"
proof -
  from assms(2) have "(k, p) \<in> set m" by (rule map_of_SomeD)
  with assms(1) have "case cell_at h p of
      Some (Proxy t hs) \<Rightarrow> t = k \<and> handler_readonly hs = ro | _ \<Rightarrow> False"
    unfolding registry_ok_def by blast
  then show ?thesis by (auto split: option.splits cell.splits)
qed

lemma wf_registry_ok: "wf s \<Longrightarrow> registry_ok (heap s) (mode_readonly m) (registry s (mode_registry m))"
  by (cases m) (simp_all add: wf_def)

lemma wf_lookup:
  assumes "wf s" and "map_of (registry s (mode_registry m)) a = Some p"
  shows "\<exists>hs. cell_at (heap s) p = Some (Proxy a hs) \<and> handler_readonly hs = mode_readonly m"
  using registry_ok_lookup [OF wf_registry_ok [OF assms(1)] assms(2)] .

lemma registry_ok_append:
  "registry_ok h ro m \<Longrightarrow> registry_ok (h @ [c]) ro m"
  unfolding registry_ok_def
  by (fastforce simp: cell_at_def nth_append split: option.splits cell.splits if_splits)

lemma registry_ok_update:
  assumes "registry_ok h ro m" and "cell_at h p = Some (Proxy k hs)" and "handler_readonly hs = ro"
  shows "registry_ok h ro (AList.update k p m)"
  using assms set_update_subset [of k p m]
  unfolding registry_ok_def by fastforce

lemma heap_ok_append: "heap_ok h \<Longrightarrow> t < length h \<Longrightarrow> heap_ok (h @ [Proxy t hs])"
  by (auto simp: heap_ok_def nth_append less_Suc_eq)

lemma mode_handlers_readonly:
  "handler_readonly (if b then snd (mode_handlers m) else fst (mode_handlers m)) = mode_readonly m"
  by (cases m) simp_all

lemma wf_alloc:
  assumes "wf s" and "a < length (heap s)"
    and "handler_readonly hs = mode_readonly m"
  shows "wf (registry_update (s\<lparr>heap := heap s @ [Proxy a hs]\<rparr>) (mode_registry m) a
               (length (heap s)))"
proof -
  let ?h = "heap s @ [Proxy a hs]"
  have c: "cell_at ?h (length (heap s)) = Some (Proxy a hs)" by (rule cell_at_append_new)
  have n: "registry_ok ?h (mode_readonly m')
             (AList.update a (length (heap s)) (registry s (mode_registry m')))"
    if "m' = m" for m'
    using registry_ok_update [OF registry_ok_append [OF wf_registry_ok [OF assms(1)]] c]
      assms(3) that by simp
  have o: "registry_ok ?h (mode_readonly m') (registry s (mode_registry m'))" for m'
    by (rule registry_ok_append [OF wf_registry_ok [OF assms(1)]])
  have h: "heap_ok ?h" using assms(1,2) by (simp add: wf_def heap_ok_append)
  show ?thesis
    using h n [of MutableDeep] n [of MutableShallow] n [of ReadonlyDeep] n [of ReadonlyShallow]
      o [of MutableDeep] o [of MutableShallow] o [of ReadonlyDeep] o [of ReadonlyShallow]
    by (cases m) (simp_all add: wf_def registry_update.simps)
qed

lemma wrap_cases [consumes 0, case_names same hit fresh threw]:
  obtains
    (same) "wrap m s t = Inr (t, s)"
  | (hit) a p where "t = VRef a" "a < length (heap s)" "isObject s t"
      "already_proxy s t (mode_readonly m) = Inr False"
      "m = MutableDeep \<longrightarrow> isReadonly s t = Inr False"
      "map_of (registry s (mode_registry m)) a = Some p"
      "wrap m s t = Inr (VRef p, s)"
  | (fresh) a tt where "t = VRef a" "a < length (heap s)" "isObject s t"
      "already_proxy s t (mode_readonly m) = Inr False"
      "m = MutableDeep \<longrightarrow> isReadonly s t = Inr False"
      "map_of (registry s (mode_registry m)) a = None" "getTargetType s t = Inr tt"
      "tt \<noteq> INVALID"
      "wrap m s t =
         Inr (VRef (length (heap s)),
              registry_update
                (s\<lparr>heap := heap s @ [Proxy a (if tt = COLLECTION then snd (mode_handlers m)
                                                else fst (mode_handlers m))]\<rparr>)
                (mode_registry m) a (length (heap s)))"
  | (threw) e where "\<not> isObject s t" "dev_warning s t = Inl e" "wrap m s t = Inl e"
proof (cases "m = MutableDeep \<and> isReadonly s t = Inr True")
  case True
  then have "wrap m s t = Inr (t, s)" by (simp add: wrap_unfold)
  then show ?thesis by (rule same)
next
  case False
  then have w: "wrap m s t = createReactiveObject s t (mode_readonly m) (fst (mode_handlers m))
             (snd (mode_handlers m)) (mode_registry m)"
    by (simp only: wrap_unfold if_False)
  obtain b where "isReadonly s t = Inr b" using isReadonly_total by blast
  with False have r: "m = MutableDeep \<longrightarrow> isReadonly s t = Inr False" by auto
  show ?thesis
  proof (cases rule: cro_cases [of s t "mode_readonly m" "fst (mode_handlers m)"
        "snd (mode_handlers m)" "mode_registry m"])
    case same
    with w show ?thesis by (auto intro: that(1))
  next
    case (hit a p)
    with w r show ?thesis by (auto intro: that(2))
  next
    case (fresh a tt)
    with w r show ?thesis by (auto intro: that(3))
  next
    case (threw e)
    with w show ?thesis by (auto intro: that(4))
  qed
qed

lemma wf_wrap:
  assumes "wf s" and "wrap m s t = Inr (w, s')"
  shows "wf s'"
proof (cases rule: wrap_cases [of m s t])
  case same
  with assms show ?thesis by simp
next
  case (hit a p)
  with assms show ?thesis by simp
next
  case (fresh a tt)
  from wf_alloc [OF assms(1) fresh(2) mode_handlers_readonly] fresh(9) assms(2)
  show ?thesis by simp
next
  case (threw e)
  with assms show ?thesis by simp
qed

lemma wrap_total: "quiet s t \<Longrightarrow> \<exists>w s'. wrap m s t = Inr (w, s')"
  by (cases rule: wrap_cases [of m s t]) (auto simp: quiet_def)

lemma wrap_error:
  "wrap m s t = Inl e \<Longrightarrow> \<not> isObject s t \<and> dev_warning s t = Inl e"
  by (cases rule: wrap_cases [of m s t]) auto

section \<open>Idempotence and identity stability\<close>

lemma js_get_Proxy:
  assumes "cell_at h p = Some (Proxy a hs)"
  shows "js_get h p RAW = VRef a"
    and "js_get h p IS_REACTIVE = VBool (\<not> handler_readonly hs)"
    and "js_get h p IS_READONLY = VBool (handler_readonly hs)"
    and "js_get h p IS_SHALLOW = VBool (handler_shallow hs)"
  using assms by (simp_all add: js_get_def handler_get_def)

lemma proxy_reads:
  assumes "cell_at (heap s) p = Some (Proxy a hs)"
  shows "get_prop s (VRef p) RAW = Inr (VRef a)"
    and "get_prop s (VRef p) IS_REACTIVE = Inr (VBool (\<not> handler_readonly hs))"
    and "get_prop s (VRef p) IS_READONLY = Inr (VBool (handler_readonly hs))"
    and "get_prop s (VRef p) IS_SHALLOW = Inr (VBool (handler_shallow hs))"
  by (simp_all add: js_get_Proxy [OF assms])

lemma proxy_predicates:
  assumes "cell_at (heap s) p = Some (Proxy a hs)"
  shows "isReadonly s (VRef p) = Inr (handler_readonly hs)"
    and "isShallow s (VRef p) = Inr (handler_shallow hs)"
    and "isProxy s (VRef p) = Inr True"
  by (simp_all add: isReadonly_def isShallow_def isProxy_def js_get_Proxy [OF assms])

lemma wrap_proxy_self:
  assumes "cell_at (heap s) p = Some (Proxy a hs)" and "handler_readonly hs = mode_readonly m"
    and "quiet s (VRef p)"
  shows "wrap m s (VRef p) = Inr (VRef p, s)"
proof -
  have "already_proxy s (VRef p) (mode_readonly m) = Inr True"
    using assms(2)
    by (simp add: already_proxy_flags [OF proxy_reads(1,2) [OF assms(1)]])
  then have "createReactiveObject s (VRef p) (mode_readonly m) bh ch pm = Inr (VRef p, s)"
    for bh ch pm
    using assms(3)
    by (cases "isObject s (VRef p)")
       (simp add: createReactiveObject_def, simp add: createReactiveObject_quiet_non_object)
  then show ?thesis by (simp add: wrap_unfold)
qed

lemma wf_proxy_below:
  assumes "wf s" and "cell_at (heap s) p = Some (Proxy a hs)"
  shows "a < p"
proof -
  from assms(2) have "p < length (heap s)" "heap s ! p = Proxy a hs"
    by (auto simp: cell_at_def split: if_splits)
  moreover from assms(1) have "heap_ok (heap s)" by (simp add: wf_def)
  ultimately show ?thesis unfolding heap_ok_def by fastforce
qed

lemma isObject_Proxy:
  "cell_at (heap s) p = Some (Proxy a hs) \<Longrightarrow> a < p \<Longrightarrow>
   isObject s (VRef p) = isObject s (VRef a)"
  by (simp add: isObject_def base_obj_def resolve_Proxy)

lemma wrap_again:
  assumes "wf s" and "wrap m s x = Inr (w, s1)"
  shows "wrap m s1 x = Inr (w, s1) \<and> wrap m s1 w = Inr (w, s1)"
proof (cases rule: wrap_cases [of m s x])
  case same
  with assms(2) show ?thesis by simp
next
  case (hit a p)
  with assms(2) have e: "w = VRef p" "s1 = s" by simp_all
  from wf_lookup [OF assms(1) hit(6)] obtain hs where
    c: "cell_at (heap s) p = Some (Proxy a hs)" "handler_readonly hs = mode_readonly m" by blast
  from hit(1,3) isObject_Proxy [OF c(1) wf_proxy_below [OF assms(1) c(1)]]
  have "quiet s (VRef p)" by simp
  with c have "wrap m s (VRef p) = Inr (VRef p, s)" by (rule wrap_proxy_self)
  with e hit(7) show ?thesis by simp
next
  case (fresh a tt)
  define hs where "hs = (if tt = COLLECTION then snd (mode_handlers m) else fst (mode_handlers m))"
  define n where "n = length (heap s)"
  define s' where "s' = registry_update (s\<lparr>heap := heap s @ [Proxy a hs]\<rparr>) (mode_registry m) a n"
  from fresh(9) assms(2) have e: "w = VRef n" "s1 = s'" by (simp_all add: s'_def hs_def n_def)
  have h: "heap s' = heap s @ [Proxy a hs]" by (simp add: s'_def)
  have v: "valid s x" using fresh(3) by (rule isObject_valid)
  have c: "cell_at (heap s') n = Some (Proxy a hs)" by (simp add: h n_def cell_at_append_new)
  have hr: "handler_readonly hs = mode_readonly m"
    unfolding hs_def by (rule mode_handlers_readonly)
  have o: "isObject s' x" using fresh(3) isObject_ext [OF h v] by simp
  have "a < n" using fresh(2) by (simp add: n_def)
  with o fresh(1) isObject_Proxy [OF c] have "quiet s' (VRef n)" by simp
  with c hr have self: "wrap m s' (VRef n) = Inr (VRef n, s')"
    by (rule wrap_proxy_self)
  have "proxyMap_get s' (mode_registry m) x = Some n"
    using fresh(1) by (simp add: s'_def proxyMap_get_def registry_registry_update update_conv')
  moreover note o
  moreover have "already_proxy s' x (mode_readonly m) = Inr False"
    using fresh(4) already_proxy_ext [OF h v] by simp
  ultimately have cro: "createReactiveObject s' x (mode_readonly m) bh ch (mode_registry m)
      = Inr (VRef n, s')" for bh ch
    by (simp add: createReactiveObject_def)
  have "m = MutableDeep \<longrightarrow> isReadonly s' x = Inr False"
    using fresh(5) by (simp only: isReadonly_ext [OF h v])
  then have "\<not> (m = MutableDeep \<and> isReadonly s' x = Inr True)" by auto
  then have "wrap m s' x = Inr (VRef n, s')"
    by (simp only: wrap_unfold if_False cro)
  with self e show ?thesis by simp
next
  case (threw e)
  with assms show ?thesis by simp
qed

lemma not_proxy_cell:
  assumes "isProxy s (VRef a) = Inr False" and "a < length (heap s)"
  shows "\<exists>ob. cell_at (heap s) a = Some (Obj ob)"
proof (cases "heap s ! a")
  case (Obj ob)
  with assms(2) show ?thesis by (simp add: cell_at_def)
next
  case (Proxy t hs)
  with assms(2) have "cell_at (heap s) a = Some (Proxy t hs)" by (simp add: cell_at_def)
  from proxy_predicates(3) [OF this] assms(1) show ?thesis by simp
qed

lemma wrap_eligible:
  assumes "wf s" and "eligible s x" and "wrap m s x = Inr (w, s1)"
  shows "\<exists>a p hs. x = VRef a \<and> w = VRef p \<and> p \<noteq> a
           \<and> cell_at (heap s1) p = Some (Proxy a hs)
           \<and> handler_readonly hs = mode_readonly m
           \<and> map_of (registry s1 (mode_registry m)) a = Some p"
proof -
  from assms(2) have ob: "isObject s x" and px: "isProxy s x = Inr False"
    and ro: "isReadonly s x = Inr False"
    and tt: "getTargetType s x = Inr COMMON \<or> getTargetType s x = Inr COLLECTION"
    by (simp_all add: eligible_def)
  from ob obtain a where a: "x = VRef a" "a < length (heap s)" using isObject_VRef by blast
  from px a obtain ob' where cell: "cell_at (heap s) a = Some (Obj ob')"
    using not_proxy_cell by blast
  have ap: "already_proxy s x ro' = Inr False" for ro'
    using px a by (auto simp: already_proxy_def isProxy_def split: sum.splits)
  have w: "wrap m s x = createReactiveObject s x (mode_readonly m) (fst (mode_handlers m))
             (snd (mode_handlers m)) (mode_registry m)"
    using ro by (simp add: wrap_unfold)
  show ?thesis
  proof (cases "map_of (registry s (mode_registry m)) a")
    case (Some p)
    with w ob ap a have "wrap m s x = Inr (VRef p, s)"
      by (simp add: createReactiveObject_def proxyMap_get_def)
    with assms(3) have e: "w = VRef p" "s1 = s" by simp_all
    from wf_lookup [OF assms(1) Some] obtain hs where
      hs: "cell_at (heap s) p = Some (Proxy a hs)" "handler_readonly hs = mode_readonly m"
      by blast
    with cell have "p \<noteq> a" by auto
    with a e hs Some show ?thesis by simp
  next
    case None
    let ?hs = "if getTargetType s x = Inr COLLECTION then snd (mode_handlers m)
               else fst (mode_handlers m)"
    let ?n = "length (heap s)"
    let ?s' = "registry_update (s\<lparr>heap := heap s @ [Proxy a ?hs]\<rparr>) (mode_registry m) a ?n"
    from w ob ap a None tt have "wrap m s x = Inr (VRef ?n, ?s')"
      by (auto simp: createReactiveObject_def proxyMap_get_def new_Proxy_def proxyMap_set_def)
    with assms(3) have e: "w = VRef ?n" "s1 = ?s'" by simp_all
    have "cell_at (heap ?s') ?n = Some (Proxy a ?hs)" by (simp add: cell_at_append_new)
    moreover have "map_of (registry ?s' (mode_registry m)) a = Some ?n"
      by (simp add: registry_registry_update update_conv')
    moreover have "handler_readonly ?hs = mode_readonly m" by (rule mode_handlers_readonly)
    ultimately show ?thesis using a e by simp
  qed
qed

text \<open>
  C7. In a well-formed state \<^verbatim>\<open>readonly(x)\<close> returns, and from the state it leaves,
  \<^verbatim>\<open>readonly\<close> of its result is that result, as is \<^verbatim>\<open>readonly(x)\<close> once more. The one
  error \<^verbatim>\<open>readonly(x)\<close> can raise is that of the development warning, on an \<open>x\<close> that
  \<^verbatim>\<open>isObject\<close> rejects and whose string conversion fails.
\<close>

theorem readonly_readonly:
  assumes "wf s"
  shows "case readonly s x of
           Inl e \<Rightarrow> \<not> isObject s x \<and> dev_warning s x = Inl e
         | Inr (r, s1) \<Rightarrow> readonly s1 r = Inr (r, s1) \<and> readonly s1 x = Inr (r, s1)"
proof (cases "wrap ReadonlyDeep s x")
  case (Inl e)
  from wrap_error [OF this] Inl show ?thesis by simp
next
  case (Inr rs)
  obtain r s1 where "rs = (r, s1)" by (cases rs)
  with Inr have r: "wrap ReadonlyDeep s x = Inr (r, s1)" by simp
  from wrap_again [OF assms r] r show ?thesis by simp
qed

theorem readonly_readonly_witness:
  "wf s_reactive \<and> readonly s_reactive (VRef 1) = Inr (VRef 2, s_layered)
   \<and> readonly s_layered (VRef 2) = Inr (VRef 2, s_layered)"
proof -
  have h: "wf s_reactive" by code_simp
  have r: "readonly s_reactive (VRef 1) = Inr (VRef 2, s_layered)" by code_simp
  from readonly_readonly [OF h, of "VRef 1"] h r show ?thesis by simp
qed

section \<open>The classifier and objects that opt out\<close>

lemma base_obj_Obj: "cell_at h a = Some (Obj ob) \<Longrightarrow> base_obj h a = Some ob"
  by (simp add: base_obj_def resolve_Obj)

lemma base_obj_cell: "base_obj h a = Some ob \<Longrightarrow> cell_at h (resolve h a) = Some (Obj ob)"
  by (simp add: base_obj_def split: option.splits cell.splits)

lemma getTargetType_total:
  "get_prop s v SKIP = Inr skip \<Longrightarrow>
   getTargetType s v = Inr (if truthy skip \<or> \<not> isExtensible s v then INVALID
                            else targetTypeMap (toRawType s v))"
  by (simp add: getTargetType_def)

lemma targetTypeMap_COMMON: "targetTypeMap t = COMMON \<longleftrightarrow> t = ''Object'' \<or> t = ''Array''"
  by (simp add: targetTypeMap_def)

lemma targetTypeMap_COLLECTION:
  "targetTypeMap t = COLLECTION \<longleftrightarrow> t \<in> {''Map'', ''Set'', ''WeakMap'', ''WeakSet''}"
  by (simp add: targetTypeMap_def)

lemma targetTypeMap_INVALID:
  "targetTypeMap t = INVALID \<longleftrightarrow>
     t \<notin> {''Object'', ''Array'', ''Map'', ''Set'', ''WeakMap'', ''WeakSet''}"
  by (simp add: targetTypeMap_def)

lemma createReactiveObject_INVALID:
  assumes "getTargetType s v = Inr INVALID" and "proxyMap_get s pm v = None" and "quiet s v"
  shows "createReactiveObject s v ro bh ch pm = Inr (v, s)"
proof (cases rule: cro_cases [of s v ro bh ch pm])
  case same
  then show ?thesis by simp
next
  case (hit a p)
  with assms(2) show ?thesis by (simp add: proxyMap_get_def)
next
  case (fresh a tt)
  with assms(1) show ?thesis by simp
next
  case (threw e)
  with assms(3) show ?thesis by (simp add: quiet_def)
qed

lemma wrap_INVALID:
  assumes "getTargetType s v = Inr INVALID" and "proxyMap_get s (mode_registry m) v = None"
    and "quiet s v"
  shows "wrap m s v = Inr (v, s)"
  by (simp add: wrap_unfold createReactiveObject_INVALID [OF assms])

text \<open>
  C6 (amended). The classifier answers INVALID for a value that carries the skip flag or is
  not extensible; otherwise COMMON exactly for the raw types Object and Array, COLLECTION
  exactly for Map, Set, WeakMap and WeakSet, and INVALID exactly for every other raw type.
  A value classified INVALID for which the registry of the call has no entry is returned
  unchanged by the factory and by the constructors; for a value that \<^verbatim>\<open>isObject\<close> rejects
  this needs the development warning to return (\<open>quiet\<close>).
\<close>

theorem classifier:
  assumes "get_prop s v SKIP = Inr skip"
  shows "(truthy skip \<or> \<not> isExtensible s v \<longrightarrow> getTargetType s v = Inr INVALID)
       \<and> (\<not> truthy skip \<and> isExtensible s v \<longrightarrow>
            (getTargetType s v = Inr COMMON \<longleftrightarrow>
               toRawType s v = ''Object'' \<or> toRawType s v = ''Array'')
          \<and> (getTargetType s v = Inr COLLECTION \<longleftrightarrow>
               toRawType s v \<in> {''Map'', ''Set'', ''WeakMap'', ''WeakSet''})
          \<and> (getTargetType s v = Inr INVALID \<longleftrightarrow>
               toRawType s v \<notin> {''Object'', ''Array'', ''Map'', ''Set'', ''WeakMap'', ''WeakSet''}))
       \<and> (getTargetType s v = Inr INVALID \<and> proxyMap_get s pm v = None \<and> quiet s v \<longrightarrow>
            createReactiveObject s v ro bh ch pm = Inr (v, s))
       \<and> (getTargetType s v = Inr INVALID \<and> proxyMap_get s (mode_registry m) v = None
            \<and> quiet s v \<longrightarrow>
            wrap m s v = Inr (v, s))"
proof (intro conjI impI)
  assume "truthy skip \<or> \<not> isExtensible s v"
  then show "getTargetType s v = Inr INVALID"
    by (simp add: getTargetType_total [OF assms])
next
  assume a: "\<not> truthy skip \<and> isExtensible s v"
  then have g: "getTargetType s v = Inr (targetTypeMap (toRawType s v))"
    by (simp add: getTargetType_total [OF assms])
  show "getTargetType s v = Inr COMMON \<longleftrightarrow>
          toRawType s v = ''Object'' \<or> toRawType s v = ''Array''"
    by (simp only: g sum.inject targetTypeMap_COMMON)
  show "getTargetType s v = Inr COLLECTION \<longleftrightarrow>
          toRawType s v \<in> {''Map'', ''Set'', ''WeakMap'', ''WeakSet''}"
    by (simp only: g sum.inject targetTypeMap_COLLECTION)
  show "getTargetType s v = Inr INVALID \<longleftrightarrow>
          toRawType s v \<notin> {''Object'', ''Array'', ''Map'', ''Set'', ''WeakMap'', ''WeakSet''}"
    by (simp only: g sum.inject targetTypeMap_INVALID)
next
  assume "getTargetType s v = Inr INVALID \<and> proxyMap_get s pm v = None \<and> quiet s v"
  then show "createReactiveObject s v ro bh ch pm = Inr (v, s)"
    by (simp add: createReactiveObject_INVALID)
next
  assume "getTargetType s v = Inr INVALID \<and> proxyMap_get s (mode_registry m) v = None
            \<and> quiet s v"
  then show "wrap m s v = Inr (v, s)"
    by (simp add: wrap_INVALID)
qed

theorem classifier_witness:
  "get_prop s_marked (VRef 0) SKIP = Inr (VBool True) \<and> truthy (VBool True)
   \<and> getTargetType s_marked (VRef 0) = Inr INVALID
   \<and> proxyMap_get s_marked ReadonlyMap (VRef 0) = None
   \<and> quiet s_marked (VRef 0)
   \<and> wrap ReadonlyDeep s_marked (VRef 0) = Inr (VRef 0, s_marked)"
proof -
  have h: "get_prop s_marked (VRef 0) SKIP = Inr (VBool True)" by code_simp
  have n: "proxyMap_get s_marked ReadonlyMap (VRef 0) = None" by code_simp
  have q: "quiet s_marked (VRef 0)" by code_simp
  from classifier [OF h, of ReadonlyMap True readonlyHandlers readonlyCollectionHandlers
      ReadonlyDeep] h n q
  show ?thesis by (simp del: wrap.simps)
qed

text \<open>
  The claim as it stands fails where the value was wrapped before it became ineligible:
  after \<^verbatim>\<open>reactive(x)\<close> and \<^verbatim>\<open>markRaw(x)\<close> the classifier answers INVALID for \<open>x\<close>, and
  the factory returns the registered proxy, not \<open>x\<close>. It also fails, in a development
  build, on \<^verbatim>\<open>f = () => {}; f.toString = 1\<close>: the classifier answers INVALID for \<open>f\<close>, no
  registry has an entry for it, and the factory throws in the warning of step 1.
\<close>

theorem classifier_counterexample:
  "reactive s_plain (VRef 0) = Inr (VRef 1, s_reactive)
   \<and> markRaw s_reactive (VRef 0) = Inr (VRef 0, s_marked)
   \<and> getTargetType s_marked (VRef 0) = Inr INVALID
   \<and> createReactiveObject s_marked (VRef 0) False mutableHandlers mutableCollectionHandlers
        ReactiveMap = Inr (VRef 1, s_marked)
   \<and> createReactiveObject s_marked (VRef 0) False mutableHandlers mutableCollectionHandlers
        ReactiveMap \<noteq> Inr (VRef 0, s_marked)
   \<and> getTargetType s_fn (VRef 0) = Inr INVALID
   \<and> proxyMap_get s_fn ReactiveMap (VRef 0) = None
   \<and> createReactiveObject s_fn (VRef 0) False mutableHandlers mutableCollectionHandlers
        ReactiveMap = Inl TypeError"
  by code_simp

section \<open>\<^verbatim>\<open>markRaw\<close> and programs\<close>

lemma markRaw_cases [consumes 0, case_names error same marked]:
  obtains
    (error) e where "markRaw s v = Inl e"
  | (same) "markRaw s v = Inr (v, s)"
  | (marked) a ob where "v = VRef a" "base_obj (heap s) a = Some ob"
      "map_of (props ob) SKIP = None" "extensible ob"
      "markRaw s v =
         Inr (v, s\<lparr>heap := (heap s)[resolve (heap s) a :=
                    Obj (ob\<lparr>props := AList.update SKIP (VBool True) (props ob)\<rparr>)]\<rparr>)"
proof (cases v)
  case (VRef a)
  show ?thesis
  proof (cases "base_obj (heap s) a")
    case None
    with VRef have "markRaw s v = Inr (v, s)"
      by (simp add: markRaw_def isExtensible_def)
    then show ?thesis by (rule same)
  next
    case (Some ob)
    show ?thesis
    proof (cases "map_of (props ob) SKIP = None \<and> extensible ob")
      case True
      with VRef Some have "markRaw s v =
         Inr (v, s\<lparr>heap := (heap s)[resolve (heap s) a :=
                    Obj (ob\<lparr>props := AList.update SKIP (VBool True) (props ob)\<rparr>)]\<rparr>)"
        by (simp add: markRaw_def isExtensible_def def_def)
      with VRef Some True show ?thesis by (auto intro: marked)
    next
      case False
      with VRef Some have "markRaw s v = Inr (v, s)"
        by (auto simp: markRaw_def isExtensible_def)
      then show ?thesis by (rule same)
    qed
  qed
qed (auto simp: markRaw_def isExtensible_def intro: error same)

subsection \<open>Replacing an ordinary object by an ordinary object\<close>

lemma cell_at_update:
  "cell_at (h[c := x]) b = (if b = c \<and> c < length h then Some x else cell_at h b)"
  by (simp add: cell_at_def)

lemma resolve_update_Obj:
  assumes "cell_at h c = Some (Obj ob)"
  shows "resolve (h[c := Obj ob']) b = resolve h b"
  using assms
proof (induction h b rule: resolve.induct)
  case (1 h b)
  let ?h' = "h[c := Obj ob']"
  from "1.prems" have c: "c < length h" by (rule cell_at_Some_less)
  show ?case
  proof (cases "cell_at h b")
    case None
    with "1.prems" have "cell_at ?h' b = None" by (auto simp: cell_at_update)
    with None show ?thesis by (simp add: resolve_None)
  next
    case (Some d)
    show ?thesis
    proof (cases d)
      case (Obj x)
      with Some have "\<exists>y. cell_at ?h' b = Some (Obj y)" by (simp add: cell_at_update)
      with Some Obj show ?thesis by (auto simp: resolve_Obj)
    next
      case (Proxy t hs)
      with Some "1.prems" have ne: "b \<noteq> c" by auto
      with Some Proxy have p': "cell_at ?h' b = Some (Proxy t hs)" by (simp add: cell_at_update)
      show ?thesis
      proof (cases "t < b")
        case True
        from "1.IH" [OF Some Proxy True "1.prems"] True Some Proxy p' show ?thesis
          by (simp add: resolve_Proxy)
      next
        case False
        with Some Proxy p' show ?thesis
          by (simp add: resolve.simps [of h b] resolve.simps [of ?h' b])
      qed
    qed
  qed
qed

lemma base_obj_update_Obj:
  assumes "cell_at h c = Some (Obj ob)"
  shows "base_obj (h[c := Obj ob']) b = (if resolve h b = c then Some ob' else base_obj h b)"
  using cell_at_Some_less [OF assms]
  by (simp add: base_obj_def resolve_update_Obj [OF assms] cell_at_update)

lemma heap_ok_update_Obj:
  assumes "heap_ok h"
  shows "heap_ok (h[c := Obj ob'])"
proof -
  have "case h[c := Obj ob'] ! a of Obj ob \<Rightarrow> True | Proxy t hs \<Rightarrow> t < a"
    if "a < length h" for a
  proof (cases "a = c")
    case True
    with that show ?thesis by simp
  next
    case False
    from assms that have "case h ! a of Obj ob \<Rightarrow> True | Proxy t hs \<Rightarrow> t < a"
      by (simp add: heap_ok_def)
    with False show ?thesis by simp
  qed
  then show ?thesis by (simp add: heap_ok_def)
qed

lemma registry_ok_update_Obj:
  assumes "registry_ok h ro m" and "cell_at h c = Some (Obj ob)"
  shows "registry_ok (h[c := Obj ob']) ro m"
proof -
  have "case cell_at (h[c := Obj ob']) p of
          Some (Proxy t hs) \<Rightarrow> t = k \<and> handler_readonly hs = ro | _ \<Rightarrow> False"
    if "(k, p) \<in> set m" for k p
  proof -
    from assms(1) that have *: "case cell_at h p of
          Some (Proxy t hs) \<Rightarrow> t = k \<and> handler_readonly hs = ro | _ \<Rightarrow> False"
      unfolding registry_ok_def by blast
    with assms(2) have "p \<noteq> c" by auto
    with * show ?thesis by (simp add: cell_at_update)
  qed
  then show ?thesis unfolding registry_ok_def by blast
qed

lemma wf_markRaw:
  assumes "wf s" and "markRaw s v = Inr (r, s')"
  shows "wf s'"
proof (cases rule: markRaw_cases [of s v])
  case (error e)
  with assms(2) show ?thesis by simp
next
  case same
  with assms show ?thesis by simp
next
  case (marked a ob)
  from base_obj_cell [OF marked(2)] assms(1) marked(5) assms(2) show ?thesis
    by (auto simp: wf_def heap_ok_update_Obj registry_ok_update_Obj)
qed

lemma toReactive_unfold:
  "toReactive s v = (if isObject s v then wrap MutableDeep s v else Inr (v, s))"
  by (simp add: toReactive_def)

lemma toReadonly_unfold:
  "toReadonly s v = (if isObject s v then wrap ReadonlyDeep s v else Inr (v, s))"
  by (simp add: toReadonly_def)

lemma wf_exec_op:
  assumes "wf s" and "exec_op s c = Inr (r, s')"
  shows "wf s'"
proof (cases c)
  case (OpWrap m v)
  with assms show ?thesis using wf_wrap by simp
next
  case (OpMarkRaw v)
  with assms show ?thesis using wf_markRaw by simp
next
  case (OpToReactive v)
  with assms show ?thesis
    using wf_wrap [of s MutableDeep v r s']
    by (simp add: toReactive_unfold del: wrap.simps split: if_splits)
next
  case (OpToReadonly v)
  with assms show ?thesis
    using wf_wrap [of s ReadonlyDeep v r s']
    by (simp add: toReadonly_unfold del: wrap.simps split: if_splits)
qed

lemma wf_run: "wf s \<Longrightarrow> wf (run s cs)"
proof (induction cs arbitrary: s)
  case Nil
  then show ?case by simp
next
  case (Cons c cs)
  show ?case
  proof (cases "exec_op s c")
    case (Inl e)
    with Cons show ?thesis by simp
  next
    case (Inr rs)
    obtain r s' where "rs = (r, s')" by (cases rs)
    with Inr Cons.prems wf_exec_op have "wf s'" by blast
    with Cons.IH Inr \<open>rs = (r, s')\<close> show ?thesis by simp
  qed
qed

lemma wf_empty_state:
  "list_all (\<lambda>c. case c of Obj ob \<Rightarrow> True | Proxy t hs \<Rightarrow> False) h \<Longrightarrow> wf (empty_state h)"
  by (auto simp: wf_def empty_state_def heap_ok_def registry_ok_def list_all_length
      split: cell.splits)

subsection \<open>An object that has opted out stays out\<close>

lemma opted_out_registry:
  "opted_out s a ob \<Longrightarrow> map_of (registry s (mode_registry m)) a = None"
  by (cases m) (simp_all add: opted_out_def)

lemma opted_out_INVALID:
  assumes "opted_out s a ob"
  shows "getTargetType s (VRef a) = Inr INVALID"
proof -
  from assms have c: "cell_at (heap s) a = Some (Obj ob)"
    and f: "truthy (own_get ob SKIP) \<or> \<not> extensible ob"
    by (simp_all add: opted_out_def)
  have "js_get (heap s) a SKIP = own_get ob SKIP" using c by (simp add: js_get_def)
  moreover have "isExtensible s (VRef a) = extensible ob"
    using c by (simp add: isExtensible_def base_obj_Obj)
  ultimately show ?thesis using f by (auto simp: getTargetType_def)
qed

lemma opted_out_wrap:
  assumes "opted_out s a ob"
  shows "wrap m s (VRef a) = Inr (VRef a, s)"
  using opted_out_INVALID [OF assms] opted_out_registry [OF assms, of m] assms
  by (intro wrap_INVALID) (simp_all add: proxyMap_get_def opted_out_def)

lemma DEV_registry_update [simp]: "DEV (registry_update s pm k p) = DEV s"
  by (cases pm) (simp_all add: registry_update.simps)

lemma quiet_Obj:
  "cell_at (heap s) a = Some (Obj ob) \<Longrightarrow>
   quiet s (VRef a) = (\<not> callable ob \<or> \<not> DEV s \<or> printable ob)"
  by (auto simp: quiet_def isObject_def dev_warning_def js_String_def base_obj_Obj)

lemma opted_out_alloc:
  assumes "opted_out s a ob" and "b \<noteq> a"
  shows "opted_out (registry_update (s\<lparr>heap := heap s @ [Proxy b hs]\<rparr>) pm b n) a ob"
proof -
  let ?s' = "registry_update (s\<lparr>heap := heap s @ [Proxy b hs]\<rparr>) pm b n"
  from assms(1) have c: "cell_at (heap s) a = Some (Obj ob)" and q: "quiet s (VRef a)"
    by (simp_all add: opted_out_def)
  from c have a: "a < length (heap s)" by (rule cell_at_Some_less)
  with c have c': "cell_at (heap ?s') a = Some (Obj ob)" by (simp add: cell_at_append_old)
  from q have "quiet ?s' (VRef a)" by (simp add: quiet_Obj [OF c] quiet_Obj [OF c'])
  with assms a show ?thesis
    by (cases pm)
       (simp_all add: opted_out_def registry_update.simps cell_at_append_old update_conv')
qed

lemma opted_out_wrap_any:
  assumes "opted_out s a ob" and "wrap m s v = Inr (r, s')"
  shows "opted_out s' a ob"
proof (cases rule: wrap_cases [of m s v])
  case same
  with assms show ?thesis by simp
next
  case (hit b p)
  with assms show ?thesis by simp
next
  case (fresh b tt)
  have "b \<noteq> a"
  proof
    assume "b = a"
    with fresh(1,7,8) opted_out_INVALID [OF assms(1)] show False by simp
  qed
  from opted_out_alloc [OF assms(1) this] fresh(9) assms(2) show ?thesis by simp
next
  case (threw e)
  with assms show ?thesis by simp
qed

lemma opted_out_markRaw:
  assumes "opted_out s a ob" and "markRaw s v = Inr (r, s')"
  shows "opted_out s' a ob"
proof (cases rule: markRaw_cases [of s v])
  case (error e)
  with assms(2) show ?thesis by simp
next
  case same
  with assms show ?thesis by simp
next
  case (marked b ob')
  from assms(1) have c: "cell_at (heap s) a = Some (Obj ob)"
    and f: "truthy (own_get ob SKIP) \<or> \<not> extensible ob"
    by (simp_all add: opted_out_def)
  have "resolve (heap s) b \<noteq> a"
  proof
    assume "resolve (heap s) b = a"
    with base_obj_cell [OF marked(2)] c have "ob' = ob" by simp
    with marked(3,4) f show False by (simp add: own_get_def)
  qed
  then have ne: "resolve (heap s) b \<noteq> a" .
  from marked(5) assms(2) have s': "s' = s\<lparr>heap := (heap s)[resolve (heap s) b :=
      Obj (ob'\<lparr>props := AList.update SKIP (VBool True) (props ob')\<rparr>)]\<rparr>"
    by simp
  from c ne have c': "cell_at (heap s') a = Some (Obj ob)"
    unfolding s' by (simp add: cell_at_update)
  from assms(1) have "quiet s (VRef a)" by (simp add: opted_out_def)
  then have "quiet s' (VRef a)"
    by (simp add: quiet_Obj [OF c] quiet_Obj [OF c']) (simp add: s')
  with assms(1) ne show ?thesis
    unfolding s' by (simp add: opted_out_def cell_at_update)
qed

lemma opted_out_exec_op:
  assumes "opted_out s a ob" and "exec_op s c = Inr (r, s')"
  shows "opted_out s' a ob"
proof (cases c)
  case (OpWrap m v)
  with assms show ?thesis using opted_out_wrap_any by simp
next
  case (OpMarkRaw v)
  with assms show ?thesis using opted_out_markRaw by simp
next
  case (OpToReactive v)
  with assms show ?thesis
    using opted_out_wrap_any [of s a ob MutableDeep v r s']
    by (simp add: toReactive_unfold del: wrap.simps split: if_splits)
next
  case (OpToReadonly v)
  with assms show ?thesis
    using opted_out_wrap_any [of s a ob ReadonlyDeep v r s']
    by (simp add: toReadonly_unfold del: wrap.simps split: if_splits)
qed

lemma opted_out_run: "opted_out s a ob \<Longrightarrow> opted_out (run s cs) a ob"
proof (induction cs arbitrary: s)
  case Nil
  then show ?case by simp
next
  case (Cons c cs)
  show ?case
  proof (cases "exec_op s c")
    case (Inl e)
    with Cons show ?thesis by simp
  next
    case (Inr rs)
    obtain r s' where "rs = (r, s')" by (cases rs)
    with Inr Cons.prems opted_out_exec_op have "opted_out s' a ob" by blast
    with Cons.IH Inr \<open>rs = (r, s')\<close> show ?thesis by simp
  qed
qed

lemma isReactive_Obj:
  assumes "cell_at (heap s) a = Some (Obj ob)"
    and "\<not> truthy (own_get ob IS_READONLY)"
  shows "isReactive s (VRef a) = Some (Inr (truthy (own_get ob IS_REACTIVE)))"
proof -
  have "isReadonly s (VRef a) = Inr False"
    using assms by (simp add: isReadonly_def js_get_def)
  then show ?thesis
    using assms(1) by (subst isReactive.simps) (simp add: js_get_def)
qed

lemma own_get_update_other:
  "k \<noteq> key \<Longrightarrow> own_get (ob\<lparr>props := AList.update key x (props ob)\<rparr>) k = own_get ob k"
  by (simp add: own_get_def update_conv')

lemma own_get_update_same:
  "own_get (ob\<lparr>props := AList.update key x (props ob)\<rparr>) key = x"
  by (simp add: own_get_def update_conv')

lemma markRaw_opted_out:
  assumes c: "cell_at (heap s) a = Some (Obj ob)"
    and reg: "\<forall>m. map_of (registry s (mode_registry m)) a = None"
    and own: "truthy (own_get ob SKIP) \<or> map_of (props ob) SKIP = None \<or> \<not> extensible ob"
    and q: "quiet s (VRef a)"
  shows "\<exists>s1 ob1. markRaw s (VRef a) = Inr (VRef a, s1) \<and> opted_out s1 a ob1
           \<and> own_get ob1 IS_READONLY = own_get ob IS_READONLY
           \<and> own_get ob1 IS_REACTIVE = own_get ob IS_REACTIVE"
proof -
  have b: "base_obj (heap s) a = Some ob" using c by (rule base_obj_Obj)
  have r: "resolve (heap s) a = a" using c by (rule resolve_Obj)
  have a: "a < length (heap s)" using c by (rule cell_at_Some_less)
  from reg [rule_format, of MutableDeep] reg [rule_format, of MutableShallow]
    reg [rule_format, of ReadonlyDeep] reg [rule_format, of ReadonlyShallow]
  have regs: "map_of (reactiveMap s) a = None" "map_of (shallowReactiveMap s) a = None"
    "map_of (readonlyMap s) a = None" "map_of (shallowReadonlyMap s) a = None"
    by simp_all
  show ?thesis
  proof (cases "map_of (props ob) SKIP = None \<and> extensible ob")
    case True
    let ?ob1 = "ob\<lparr>props := AList.update SKIP (VBool True) (props ob)\<rparr>"
    let ?s1 = "s\<lparr>heap := (heap s)[a := Obj ?ob1]\<rparr>"
    from True b r have "markRaw s (VRef a) = Inr (VRef a, ?s1)"
      by (simp add: markRaw_def isExtensible_def def_def)
    moreover have c1: "cell_at (heap ?s1) a = Some (Obj ?ob1)"
      using a by (simp add: cell_at_update)
    from q have "quiet ?s1 (VRef a)" by (simp add: quiet_Obj [OF c] quiet_Obj [OF c1])
    then have "opted_out ?s1 a ?ob1"
      using a regs by (simp add: opted_out_def cell_at_update own_get_update_same)
    moreover have "own_get ?ob1 IS_READONLY = own_get ob IS_READONLY"
      "own_get ?ob1 IS_REACTIVE = own_get ob IS_REACTIVE"
      by (simp_all add: own_get_update_other)
    ultimately show ?thesis by blast
  next
    case False
    with b have "markRaw s (VRef a) = Inr (VRef a, s)"
      by (auto simp: markRaw_def isExtensible_def)
    moreover from False own have "truthy (own_get ob SKIP) \<or> \<not> extensible ob" by auto
    with c regs q have "opted_out s a ob" by (simp add: opted_out_def)
    ultimately show ?thesis by blast
  qed
qed

text \<open>
  C5 (amended). Let \<open>x\<close> be an ordinary object for which no registry has an entry, and that
  carries the skip flag already, or has no own skip property, or is not extensible; if
  \<^verbatim>\<open>isObject\<close> rejects \<open>x\<close> (a function), let the development warning return on it. Then
  \<^verbatim>\<open>markRaw(x)\<close> returns \<open>x\<close>, and after it, whatever program of constructor and
  \<^verbatim>\<open>markRaw\<close> calls runs in between, every constructor call on \<open>x\<close> in every mode returns
  \<open>x\<close> itself and leaves the state unchanged; and \<^verbatim>\<open>isReactive(x)\<close> is false, provided
  \<open>x\<close> carries neither a truthy is-readonly nor a truthy is-reactive property of its own.
\<close>

theorem markRaw_never_wrapped:
  assumes "cell_at (heap s) a = Some (Obj ob)"
    and "\<forall>m. map_of (registry s (mode_registry m)) a = None"
    and "truthy (own_get ob SKIP) \<or> map_of (props ob) SKIP = None \<or> \<not> extensible ob"
    and "quiet s (VRef a)"
  shows "case markRaw s (VRef a) of
           Inl e \<Rightarrow> False
         | Inr (r, s1) \<Rightarrow>
             r = VRef a
             \<and> (\<forall>cs m. wrap m (run s1 cs) (VRef a) = Inr (VRef a, run s1 cs))
             \<and> (\<not> truthy (own_get ob IS_READONLY) \<and> \<not> truthy (own_get ob IS_REACTIVE) \<longrightarrow>
                  (\<forall>cs. isReactive (run s1 cs) (VRef a) = Some (Inr False)))"
proof -
  from markRaw_opted_out [OF assms] obtain s1 ob1 where
    m: "markRaw s (VRef a) = Inr (VRef a, s1)" and o: "opted_out s1 a ob1"
    and f: "own_get ob1 IS_READONLY = own_get ob IS_READONLY"
      "own_get ob1 IS_REACTIVE = own_get ob IS_REACTIVE"
    by blast
  have w: "wrap m (run s1 cs) (VRef a) = Inr (VRef a, run s1 cs)" for cs m
    using opted_out_run [OF o] by (rule opted_out_wrap)
  have r: "isReactive (run s1 cs) (VRef a) = Some (Inr False)"
    if "\<not> truthy (own_get ob IS_READONLY) \<and> \<not> truthy (own_get ob IS_REACTIVE)" for cs
  proof -
    from opted_out_run [OF o, of cs] have "cell_at (heap (run s1 cs)) a = Some (Obj ob1)"
      by (simp add: opted_out_def)
    from isReactive_Obj [OF this] that f show ?thesis by simp
  qed
  from m w r show ?thesis by (simp del: wrap.simps)
qed

theorem markRaw_never_wrapped_witness:
  "cell_at (heap s_plain) 0 = Some (Obj counter)
   \<and> (\<forall>m. map_of (registry s_plain (mode_registry m)) 0 = None)
   \<and> map_of (props counter) SKIP = None
   \<and> quiet s_plain (VRef 0)
   \<and> markRaw s_plain (VRef 0) = Inr (VRef 0, s_skip)
   \<and> wrap MutableDeep (run s_skip [OpWrap ReadonlyDeep (VRef 0), OpMarkRaw (VRef 0)]) (VRef 0)
       = Inr (VRef 0, run s_skip [OpWrap ReadonlyDeep (VRef 0), OpMarkRaw (VRef 0)])
   \<and> isReactive (run s_skip []) (VRef 0) = Some (Inr False)"
proof -
  have h1: "cell_at (heap s_plain) 0 = Some (Obj counter)" by code_simp
  have h2: "\<forall>m. map_of (registry s_plain (mode_registry m)) 0 = None"
  proof
    fix m show "map_of (registry s_plain (mode_registry m)) 0 = None"
      by (cases m) (simp_all add: s_plain_def empty_state_def)
  qed
  have h3: "map_of (props counter) SKIP = None" by code_simp
  have h3': "truthy (own_get counter SKIP) \<or> map_of (props counter) SKIP = None
             \<or> \<not> extensible counter"
    using h3 by simp
  have h4: "quiet s_plain (VRef 0)" by code_simp
  have m: "markRaw s_plain (VRef 0) = Inr (VRef 0, s_skip)" by code_simp
  have f: "\<not> truthy (own_get counter IS_READONLY)" "\<not> truthy (own_get counter IS_REACTIVE)"
    by code_simp+
  from markRaw_never_wrapped [OF h1 h2 h3' h4] m f
  have "(\<forall>cs m. wrap m (run s_skip cs) (VRef 0) = Inr (VRef 0, run s_skip cs))
      \<and> (\<forall>cs. isReactive (run s_skip cs) (VRef 0) = Some (Inr False))"
    by (simp del: wrap.simps)
  then have "wrap MutableDeep (run s_skip [OpWrap ReadonlyDeep (VRef 0), OpMarkRaw (VRef 0)])
        (VRef 0)
       = Inr (VRef 0, run s_skip [OpWrap ReadonlyDeep (VRef 0), OpMarkRaw (VRef 0)])"
    and "isReactive (run s_skip []) (VRef 0) = Some (Inr False)"
    by blast+
  with h1 h2 h3 h4 m show ?thesis by (simp del: wrap.simps run.simps)
qed

text \<open>
  The claim as it stands fails for an object that was wrapped before it was marked: after
  \<^verbatim>\<open>reactive(x)\<close>, \<^verbatim>\<open>markRaw(x)\<close> sets the skip flag, and \<^verbatim>\<open>reactive(x)\<close> still returns
  the registered proxy, which is reactive. It also fails, in a development build, for
  \<^verbatim>\<open>f = () => {}; f.toString = 1\<close>: after \<^verbatim>\<open>markRaw(f)\<close>, \<^verbatim>\<open>reactive(f)\<close> throws in the
  warning of step 1.
\<close>

theorem markRaw_never_wrapped_counterexample:
  "markRaw s_reactive (VRef 0) = Inr (VRef 0, s_marked)
   \<and> get_prop s_marked (VRef 0) SKIP = Inr (VBool True)
   \<and> reactive s_marked (VRef 0) = Inr (VRef 1, s_marked)
   \<and> reactive s_marked (VRef 0) \<noteq> Inr (VRef 0, s_marked)
   \<and> isReactive s_marked (VRef 1) = Some (Inr True)
   \<and> markRaw s_fn (VRef 0) = Inr (VRef 0, s_fn_skip)
   \<and> reactive s_fn_skip (VRef 0) = Inl TypeError"
  by code_simp

section \<open>Layers of wrappers and \<^verbatim>\<open>toRaw\<close>\<close>

lemma toRaw_plain: "isProxy s v = Inr False \<Longrightarrow> toRaw s v = Some (Inr v)"
  by (subst toRaw.simps) (auto simp: isProxy_def split: if_splits sum.splits)

lemma toRaw_step:
  assumes "isProxy s v = Inr True"
  shows "\<exists>raw. get_prop s v RAW = Inr raw \<and> truthy raw \<and> toRaw s v = toRaw s raw"
proof -
  from assms obtain raw where r: "truthy v" "get_prop s v RAW = Inr raw" "truthy raw"
    by (auto simp: isProxy_def split: if_splits sum.splits)
  then have "toRaw s v = toRaw s raw" by (subst toRaw.simps) simp
  with r show ?thesis by blast
qed

lemma toRaw_Proxy:
  assumes "cell_at (heap s) p = Some (Proxy a hs)"
  shows "toRaw s (VRef p) = toRaw s (VRef a)"
  by (subst toRaw.simps) (simp add: js_get_Proxy [OF assms])

lemma raw_chain_toRaw:
  "raw_chain n s v = Some y \<Longrightarrow> toRaw s v = Some (Inr y) \<and> isProxy s y = Inr False"
proof (induction n arbitrary: v)
  case 0
  then show ?case by simp
next
  case (Suc n)
  obtain b where b: "isProxy s v = Inr b" using isProxy_total by blast
  show ?case
  proof (cases b)
    case True
    from toRaw_step [of s v] b True obtain raw where
      r: "get_prop s v RAW = Inr raw" "toRaw s v = toRaw s raw" by auto
    with Suc.prems b True have "raw_chain n s raw = Some y" by simp
    from Suc.IH [OF this] r show ?thesis by simp
  next
    case False
    with b Suc.prems have "y = v" by simp
    with b False toRaw_plain show ?thesis by simp
  qed
qed

lemma layered_toRaw:
  "layered k s v x \<Longrightarrow> isProxy s x = Inr False \<Longrightarrow> toRaw s v = Some (Inr x)"
proof (induction k arbitrary: v)
  case 0
  then show ?case by (simp add: toRaw_plain)
next
  case (Suc k)
  from Suc.prems(1) obtain p t hs where
    p: "v = VRef p" "cell_at (heap s) p = Some (Proxy t hs)" "layered k s (VRef t) x"
    by (auto split: val.splits option.splits cell.splits)
  from Suc.IH [OF p(3) Suc.prems(2)] toRaw_Proxy [OF p(2)] p(1) show ?case by simp
qed

lemma layered_ext:
  "layered k s v x \<Longrightarrow> heap s' = heap s @ [c] \<Longrightarrow> layered k s' v x"
proof (induction k arbitrary: v)
  case 0
  then show ?case by simp
next
  case (Suc k)
  from Suc.prems(1) obtain p t hs where
    p: "v = VRef p" "cell_at (heap s) p = Some (Proxy t hs)" "layered k s (VRef t) x"
    by (auto split: val.splits option.splits cell.splits)
  from p(2) have "cell_at (heap s') p = Some (Proxy t hs)"
    using Suc.prems(2) cell_at_Some_less [OF p(2)] by (simp add: cell_at_append_old)
  with Suc.IH [OF p(3) Suc.prems(2)] p(1) show ?case by simp
qed

lemma wrap_layered:
  assumes "wf s" and "wrap m s v = Inr (w, s')" and "layered k s v x"
  shows "(s' = s \<or> (\<exists>c. heap s' = heap s @ [c] \<and> valid s v))
         \<and> (layered k s' w x \<or> layered (Suc k) s' w x)"
proof (cases rule: wrap_cases [of m s v])
  case same
  with assms show ?thesis by simp
next
  case (hit a p)
  with assms(2) have e: "w = VRef p" "s' = s" by simp_all
  from wf_lookup [OF assms(1) hit(6)] obtain hs where
    "cell_at (heap s) p = Some (Proxy a hs)" by blast
  with e hit(1) assms(3) show ?thesis by simp
next
  case (fresh a tt)
  define hs where "hs = (if tt = COLLECTION then snd (mode_handlers m) else fst (mode_handlers m))"
  define s1 where "s1 = registry_update (s\<lparr>heap := heap s @ [Proxy a hs]\<rparr>) (mode_registry m) a
                          (length (heap s))"
  from fresh(9) assms(2) have e: "w = VRef (length (heap s))" "s' = s1"
    by (simp_all add: s1_def hs_def)
  have h: "heap s1 = heap s @ [Proxy a hs]" by (simp add: s1_def)
  have c: "cell_at (heap s1) (length (heap s)) = Some (Proxy a hs)"
    by (simp add: h cell_at_append_new)
  from layered_ext [OF assms(3) h] fresh(1) have "layered k s1 (VRef a) x" by simp
  with c have "layered (Suc k) s1 (VRef (length (heap s))) x" by simp
  moreover have "valid s v" using fresh(3) by (rule isObject_valid)
  ultimately show ?thesis using e h by blast
next
  case (threw e)
  with assms show ?thesis by simp
qed

lemma layered_valid:
  assumes "heap_ok (heap s)" and "layered k s v x" and "valid s v"
  shows "valid s x"
  using assms(2,3)
proof (induction k arbitrary: v)
  case 0
  then show ?case by simp
next
  case (Suc k)
  from Suc.prems(1) obtain p t hs where
    p: "v = VRef p" "cell_at (heap s) p = Some (Proxy t hs)" "layered k s (VRef t) x"
    by (auto split: val.splits option.splits cell.splits)
  from p(2) have pl: "p < length (heap s)" "heap s ! p = Proxy t hs"
    by (simp_all add: cell_at_def split: if_splits)
  with assms(1) have "t < p" by (auto simp: heap_ok_def)
  with pl have "valid s (VRef t)" by (simp add: valid_def)
  from Suc.IH [OF p(3) this] show ?case .
qed

lemma wrap_unwraps:
  assumes "wf s" and "wrap m s v = Inr (w, s')" and "layered k s v x"
    and "isProxy s x = Inr False"
  shows "isProxy s' x = Inr False \<and> (layered k s' w x \<or> layered (Suc k) s' w x)"
proof -
  from wrap_layered [OF assms(1-3)] have
    st: "s' = s \<or> (\<exists>c. heap s' = heap s @ [c] \<and> valid s v)"
    and l: "layered k s' w x \<or> layered (Suc k) s' w x" by simp_all
  have "isProxy s' x = Inr False"
  proof (cases "s' = s")
    case True
    with assms(4) show ?thesis by simp
  next
    case False
    with st obtain c where c: "heap s' = heap s @ [c]" "valid s v" by blast
    from assms(1) have "heap_ok (heap s)" by (simp add: wf_def)
    from layered_valid [OF this assms(3) c(2)] have "valid s x" .
    from isProxy_ext [OF c(1) this] assms(4) show ?thesis by simp
  qed
  with l show ?thesis by simp
qed

text \<open>
  C4 (amended). \<^verbatim>\<open>toRaw\<close> follows the raw flag: on a value that carries one it is
  \<^verbatim>\<open>toRaw\<close> of that flag's value, on any other value it returns the value. It returns
  whenever the chain of raw flags is finite, with the value at the end of the chain, which
  carries no raw flag; in particular through any number of layers of wrappers over a value
  \<open>x\<close> that carries no raw flag. For such \<open>x\<close>, in a well-formed state,
  \<^verbatim>\<open>toRaw(x)\<close>, \<^verbatim>\<open>toRaw(reactive(x))\<close> and \<^verbatim>\<open>toRaw(readonly(reactive(x)))\<close> are \<open>x\<close>;
  the one error a constructor can raise on the way is that of the development warning, on
  an argument that \<^verbatim>\<open>isObject\<close> rejects and whose string conversion fails.
\<close>

theorem toRaw_unwraps:
  "(isProxy s v = Inr True \<longrightarrow>
      (\<exists>raw. get_prop s v RAW = Inr raw \<and> truthy raw \<and> toRaw s v = toRaw s raw))
   \<and> (isProxy s v = Inr False \<longrightarrow> toRaw s v = Some (Inr v))
   \<and> (raw_chain n s v = Some y \<longrightarrow> toRaw s v = Some (Inr y) \<and> isProxy s y = Inr False)
   \<and> (layered k s v x \<and> isProxy s x = Inr False \<longrightarrow> toRaw s v = Some (Inr x))
   \<and> (wf s \<and> isProxy s x = Inr False \<longrightarrow>
        toRaw s x = Some (Inr x)
      \<and> (case reactive s x of
           Inl e \<Rightarrow> \<not> isObject s x \<and> dev_warning s x = Inl e
         | Inr (p, s1) \<Rightarrow>
             toRaw s1 p = Some (Inr x)
             \<and> (case readonly s1 p of
                  Inl e \<Rightarrow> \<not> isObject s1 p \<and> dev_warning s1 p = Inl e
                | Inr (q, s2) \<Rightarrow> toRaw s2 q = Some (Inr x))))"
proof (intro conjI impI)
  assume "isProxy s v = Inr True"
  then show "\<exists>raw. get_prop s v RAW = Inr raw \<and> truthy raw \<and> toRaw s v = toRaw s raw"
    by (rule toRaw_step)
next
  assume "isProxy s v = Inr False"
  then show "toRaw s v = Some (Inr v)" by (rule toRaw_plain)
next
  assume "raw_chain n s v = Some y"
  then show "toRaw s v = Some (Inr y)" "isProxy s y = Inr False"
    using raw_chain_toRaw by blast+
next
  assume "layered k s v x \<and> isProxy s x = Inr False"
  then show "toRaw s v = Some (Inr x)" using layered_toRaw by blast
next
  assume a: "wf s \<and> isProxy s x = Inr False"
  then show "toRaw s x = Some (Inr x)" by (simp add: toRaw_plain)
  show "case reactive s x of
           Inl e \<Rightarrow> \<not> isObject s x \<and> dev_warning s x = Inl e
         | Inr (p, s1) \<Rightarrow>
             toRaw s1 p = Some (Inr x)
             \<and> (case readonly s1 p of
                  Inl e \<Rightarrow> \<not> isObject s1 p \<and> dev_warning s1 p = Inl e
                | Inr (q, s2) \<Rightarrow> toRaw s2 q = Some (Inr x))"
  proof (cases "wrap MutableDeep s x")
    case (Inl e)
    from wrap_error [OF this] Inl show ?thesis by simp
  next
    case (Inr ps)
    obtain p s1 where "ps = (p, s1)" by (cases ps)
    with Inr have p: "wrap MutableDeep s x = Inr (p, s1)" by simp
    from a have l0: "layered 0 s x x" by simp
    from wrap_unwraps [OF _ p l0] a have
      p1: "isProxy s1 x = Inr False" "layered 0 s1 p x \<or> layered (Suc 0) s1 p x"
      by simp_all
    from p1 have t1: "toRaw s1 p = Some (Inr x)" using layered_toRaw by blast
    from a p have w1: "wf s1" using wf_wrap by blast
    show ?thesis
    proof (cases "wrap ReadonlyDeep s1 p")
      case (Inl e)
      from wrap_error [OF this] Inl p t1 show ?thesis by simp
    next
      case (Inr qs)
      obtain q s2 where "qs = (q, s2)" by (cases qs)
      with Inr have q: "wrap ReadonlyDeep s1 p = Inr (q, s2)" by simp
      from p1(2) have "isProxy s2 x = Inr False \<and> (\<exists>j. layered j s2 q x)"
      proof
        assume "layered 0 s1 p x"
        from wrap_unwraps [OF w1 q this p1(1)] show ?thesis by blast
      next
        assume "layered (Suc 0) s1 p x"
        from wrap_unwraps [OF w1 q this p1(1)] show ?thesis by blast
      qed
      then have "toRaw s2 q = Some (Inr x)" using layered_toRaw by blast
      with t1 p q show ?thesis by simp
    qed
  qed
qed

theorem toRaw_unwraps_witness:
  "wf s_plain \<and> isProxy s_plain (VRef 0) = Inr False
   \<and> reactive s_plain (VRef 0) = Inr (VRef 1, s_reactive)
   \<and> readonly s_reactive (VRef 1) = Inr (VRef 2, s_layered)
   \<and> toRaw s_reactive (VRef 1) = Some (Inr (VRef 0))
   \<and> toRaw s_layered (VRef 2) = Some (Inr (VRef 0))
   \<and> raw_chain 3 s_layered (VRef 2) = Some (VRef 0)
   \<and> layered 2 s_layered (VRef 2) (VRef 0)"
proof -
  have h: "wf s_plain" "isProxy s_plain (VRef 0) = Inr False" by code_simp+
  have r: "reactive s_plain (VRef 0) = Inr (VRef 1, s_reactive)"
    "readonly s_reactive (VRef 1) = Inr (VRef 2, s_layered)" by code_simp+
  have c: "raw_chain 3 s_layered (VRef 2) = Some (VRef 0)"
    "layered 2 s_layered (VRef 2) (VRef 0)" by code_simp+
  from toRaw_unwraps [of s_plain "VRef 0" 0 "VRef 0" 0 "VRef 0"] h r
  have "toRaw s_reactive (VRef 1) = Some (Inr (VRef 0))"
    "toRaw s_layered (VRef 2) = Some (Inr (VRef 0))"
    by simp_all
  with h r c show ?thesis by simp
qed

lemma toRaw_cycle:
  assumes "get_prop s v RAW = Inr v" and "truthy v"
  shows "toRaw s v = None"
proof -
  have ne: "\<not> (s' = s \<and> v' = v)" if t: "toRaw s' v' = Some y" for s' v' y
  proof (rule toRaw.raw_induct [where P = "\<lambda>s' v' y. \<not> (s' = s \<and> v' = v)", OF _ t])
    fix f s' v' y
    assume IH: "\<And>a b c. f a b = Some c \<Longrightarrow> \<not> (a = s \<and> b = v)"
      and body: "(if truthy v'
          then case get_prop s' v' RAW of
                 Inl e \<Rightarrow> Some (Inl e)
               | Inr raw \<Rightarrow> if truthy raw then f s' raw else Some (Inr v')
          else Some (Inr v')) = Some y"
    show "\<not> (s' = s \<and> v' = v)"
    proof
      assume "s' = s \<and> v' = v"
      with body assms have "f s v = Some y" by simp
      from IH [OF this] show False by simp
    qed
  qed
  have "toRaw s v \<noteq> Some y" for y using ne [of s v y] by blast
  then show ?thesis by (cases "toRaw s v") auto
qed

text \<open>
  The claim as it stands fails on ordinary objects that carry a raw property of their own:
  on \<^verbatim>\<open>{__v_raw: 1}\<close>, which no constructor ever wrapped, \<^verbatim>\<open>toRaw\<close> returns \<^verbatim>\<open>1\<close>, and on
  \<^verbatim>\<open>c\<close> with \<^verbatim>\<open>c.__v_raw = c\<close> it does not return.
\<close>

theorem toRaw_unwraps_counterexample:
  "cell_at (heap s_spoof) 0 = Some (Obj (counter\<lparr>props := [(RAW, VNum 1)]\<rparr>))
   \<and> toRaw s_spoof (VRef 0) = Some (Inr (VNum 1))
   \<and> get_prop s_spoof (VRef 3) RAW = Inr (VRef 3)
   \<and> toRaw s_spoof (VRef 3) = None"
proof -
  have "get_prop s_spoof (VRef 3) RAW = Inr (VRef 3)" by code_simp
  moreover from toRaw_cycle [OF this] have "toRaw s_spoof (VRef 3) = None" by simp
  moreover have "cell_at (heap s_spoof) 0 = Some (Obj (counter\<lparr>props := [(RAW, VNum 1)]\<rparr>))"
    by code_simp
  moreover have "toRaw s_spoof (VRef 0) = Some (Inr (VNum 1))" by code_simp
  ultimately show ?thesis by simp
qed

section \<open>\<^verbatim>\<open>readonly\<close> over a reactive wrapper\<close>











section \<open>Which calls return\<close>

lemma truthy_get_prop: "truthy v \<Longrightarrow> \<exists>r. get_prop s v key = Inr r"
  by (cases v) simp_all

lemma createReactiveObject_total:
  "quiet s t \<Longrightarrow> \<exists>w s'. createReactiveObject s t ro bh ch pm = Inr (w, s')"
  by (cases rule: cro_cases [of s t ro bh ch pm]) (auto simp: quiet_def)

lemma readonly_chain_isReactive:
  "readonly_chain n s v = Some y \<Longrightarrow> \<exists>b. isReactive s v = Some (Inr b)"
proof (induction n arbitrary: v)
  case 0
  then show ?case by simp
next
  case (Suc n)
  obtain ro where ro: "isReadonly s v = Inr ro" using isReadonly_total by blast
  show ?case
  proof (cases ro)
    case True
    with ro have "truthy v" by (auto simp: isReadonly_def split: if_splits)
    then obtain raw where raw: "get_prop s v RAW = Inr raw" using truthy_get_prop by blast
    with Suc.prems ro True have "readonly_chain n s raw = Some y" by simp
    from Suc.IH [OF this] obtain b where "isReactive s raw = Some (Inr b)" by blast
    moreover have "isReactive s v = isReactive s raw"
      using ro True raw by (subst isReactive.simps) simp
    ultimately show ?thesis by simp
  next
    case False
    show ?thesis
    proof (cases "truthy v")
      case True
      then obtain r where "get_prop s v IS_REACTIVE = Inr r" using truthy_get_prop by blast
      with ro False True have "isReactive s v = Some (Inr (truthy r))"
        by (subst isReactive.simps) simp
      then show ?thesis by blast
    next
      case nt: False
      with ro False have "isReactive s v = Some (Inr False)"
        by (subst isReactive.simps) simp
      then show ?thesis by blast
    qed
  qed
qed

lemma predicates_primitive:
  assumes "\<forall>a. v \<noteq> VRef a"
  shows "isReadonly s v = Inr False" "isShallow s v = Inr False" "isProxy s v = Inr False"
    "isReactive s v = Some (Inr False)"
proof -
  show ro: "isReadonly s v = Inr False" using assms by (cases v) (simp_all add: isReadonly_def)
  show "isShallow s v = Inr False" using assms by (cases v) (simp_all add: isShallow_def)
  show "isProxy s v = Inr False" using assms by (cases v) (simp_all add: isProxy_def)
  show "isReactive s v = Some (Inr False)"
    using assms ro by (subst isReactive.simps) (cases v; simp)
qed

lemma quiet_cases: "isObject s t \<or> \<not> DEV s \<or> (\<forall>a. t \<noteq> VRef a) \<Longrightarrow> quiet s t"
  by (cases t) (auto simp: quiet_def dev_warning_def js_String_def)

lemma markRaw_total:
  assumes "v \<noteq> VUndefined" and "v \<noteq> VNull"
  shows "\<exists>s'. markRaw s v = Inr (v, s')"
proof (cases v)
  case (VRef a)
  show ?thesis
  proof (cases "base_obj (heap s) a")
    case None
    with VRef show ?thesis by (simp add: markRaw_def isExtensible_def)
  next
    case (Some ob)
    with VRef show ?thesis by (simp add: markRaw_def isExtensible_def def_def)
  qed
qed (insert assms, simp_all add: markRaw_def isExtensible_def)

lemma toReactive_total: "\<exists>w s'. toReactive s t = Inr (w, s')"
proof (cases "isObject s t")
  case True
  then have "quiet s t" by simp
  from wrap_total [OF this, of MutableDeep] True show ?thesis
    by (simp add: toReactive_unfold del: wrap.simps)
next
  case False
  then show ?thesis by (simp add: toReactive_unfold del: wrap.simps)
qed

lemma toReadonly_total: "\<exists>w s'. toReadonly s t = Inr (w, s')"
proof (cases "isObject s t")
  case True
  then have "quiet s t" by simp
  from wrap_total [OF this, of ReadonlyDeep] True show ?thesis
    by (simp add: toReadonly_unfold del: wrap.simps)
next
  case False
  then show ?thesis by (simp add: toReadonly_unfold del: wrap.simps)
qed

text \<open>
  C8 (amended). The factory and the four constructors return on every input on which the
  development warning returns (\<open>quiet\<close>): on every object, on every primitive, and on
  everything in a production build. A non-object is then returned unchanged, and so is an
  object that the classifier rejects and for which the registry of the call has no entry.
  \<^verbatim>\<open>isReadonly\<close>, \<^verbatim>\<open>isShallow\<close> and \<^verbatim>\<open>isProxy\<close> return a boolean on every input;
  \<^verbatim>\<open>isReactive\<close> returns a boolean whenever the chain of values that report readonly,
  followed through the raw flag, is finite; on \<^verbatim>\<open>undefined\<close>, \<^verbatim>\<open>null\<close> and the primitives
  all four return false. \<^verbatim>\<open>toRaw\<close> returns, the value at the end of the chain, whenever the
  chain of raw flags is finite. \<^verbatim>\<open>toReactive\<close> and \<^verbatim>\<open>toReadonly\<close> return on every input,
  \<^verbatim>\<open>markRaw\<close> on every input but \<^verbatim>\<open>undefined\<close> and \<^verbatim>\<open>null\<close>.
\<close>

theorem operations_return:
  "(isObject s t \<or> \<not> DEV s \<or> (\<forall>a. t \<noteq> VRef a) \<longrightarrow> quiet s t)
   \<and> (quiet s t \<longrightarrow>
        (\<exists>w s'. createReactiveObject s t ro bh ch pm = Inr (w, s'))
        \<and> (\<exists>w s'. wrap m s t = Inr (w, s')))
   \<and> (\<not> isObject s t \<and> quiet s t \<longrightarrow>
        createReactiveObject s t ro bh ch pm = Inr (t, s) \<and> wrap m s t = Inr (t, s))
   \<and> (getTargetType s t = Inr INVALID \<and> proxyMap_get s pm t = None \<and> quiet s t \<longrightarrow>
        createReactiveObject s t ro bh ch pm = Inr (t, s))
   \<and> (getTargetType s t = Inr INVALID \<and> proxyMap_get s (mode_registry m) t = None
        \<and> quiet s t \<longrightarrow>
        wrap m s t = Inr (t, s))
   \<and> (\<exists>b. isReadonly s v = Inr b) \<and> (\<exists>b. isShallow s v = Inr b) \<and> (\<exists>b. isProxy s v = Inr b)
   \<and> (readonly_chain n s v = Some y \<longrightarrow> (\<exists>b. isReactive s v = Some (Inr b)))
   \<and> ((\<forall>a. v \<noteq> VRef a) \<longrightarrow>
        isReadonly s v = Inr False \<and> isShallow s v = Inr False \<and> isProxy s v = Inr False
        \<and> isReactive s v = Some (Inr False))
   \<and> (raw_chain k s v = Some z \<longrightarrow> toRaw s v = Some (Inr z))
   \<and> (\<exists>w s'. toReactive s t = Inr (w, s')) \<and> (\<exists>w s'. toReadonly s t = Inr (w, s'))
   \<and> (v \<noteq> VUndefined \<and> v \<noteq> VNull \<longrightarrow> (\<exists>s'. markRaw s v = Inr (v, s')))"
proof (intro conjI impI)
  assume "isObject s t \<or> \<not> DEV s \<or> (\<forall>a. t \<noteq> VRef a)"
  then show "quiet s t" by (rule quiet_cases)
next
  assume "quiet s t"
  then show "\<exists>w s'. createReactiveObject s t ro bh ch pm = Inr (w, s')"
    "\<exists>w s'. wrap m s t = Inr (w, s')"
    by (rule createReactiveObject_total, rule wrap_total)
next
  assume a: "\<not> isObject s t \<and> quiet s t"
  then show c: "createReactiveObject s t ro bh ch pm = Inr (t, s)" for ro bh ch pm
    by (simp add: createReactiveObject_quiet_non_object)
  then show "wrap m s t = Inr (t, s)" by (simp add: wrap_unfold)
next
  assume "getTargetType s t = Inr INVALID \<and> proxyMap_get s pm t = None \<and> quiet s t"
  then show "createReactiveObject s t ro bh ch pm = Inr (t, s)"
    by (simp add: createReactiveObject_INVALID)
next
  assume "getTargetType s t = Inr INVALID \<and> proxyMap_get s (mode_registry m) t = None
        \<and> quiet s t"
  then show "wrap m s t = Inr (t, s)" by (simp add: wrap_INVALID)
next
  show "\<exists>b. isReadonly s v = Inr b" by (rule isReadonly_total)
  show "\<exists>b. isShallow s v = Inr b" by (rule isShallow_total)
  show "\<exists>b. isProxy s v = Inr b" by (rule isProxy_total)
  show "\<exists>w s'. toReactive s t = Inr (w, s')" by (rule toReactive_total)
  show "\<exists>w s'. toReadonly s t = Inr (w, s')" by (rule toReadonly_total)
next
  assume "readonly_chain n s v = Some y"
  then show "\<exists>b. isReactive s v = Some (Inr b)" by (rule readonly_chain_isReactive)
next
  assume p: "\<forall>a. v \<noteq> VRef a"
  show "isReadonly s v = Inr False" "isShallow s v = Inr False" "isProxy s v = Inr False"
    "isReactive s v = Some (Inr False)"
    using predicates_primitive [OF p] by simp_all
next
  assume "raw_chain k s v = Some z"
  then show "toRaw s v = Some (Inr z)" using raw_chain_toRaw by blast
next
  assume "v \<noteq> VUndefined \<and> v \<noteq> VNull"
  then show "\<exists>s'. markRaw s v = Inr (v, s')" by (simp add: markRaw_total)
qed

theorem operations_return_witness:
  "quiet s_layered (VNum 5) \<and> \<not> isObject s_layered (VNum 5)
   \<and> getTargetType s_layered (VNum 5) = Inr INVALID
   \<and> proxyMap_get s_layered ReactiveMap (VNum 5) = None
   \<and> wrap MutableDeep s_layered (VNum 5) = Inr (VNum 5, s_layered)
   \<and> isReactive s_layered VNull = Some (Inr False)
   \<and> isProxy s_layered VNull = Inr False
   \<and> readonly_chain 2 s_layered (VRef 2) = Some (VRef 1)
   \<and> (\<exists>b. isReactive s_layered (VRef 2) = Some (Inr b))
   \<and> raw_chain 3 s_layered (VRef 2) = Some (VRef 0)
   \<and> toRaw s_layered (VRef 2) = Some (Inr (VRef 0))
   \<and> (\<exists>s'. markRaw s_layered (VRef 2) = Inr (VRef 2, s'))"
proof -
  have h: "\<not> isObject s_layered (VNum 5)" "\<forall>a. VNum 5 \<noteq> VRef a"
    "getTargetType s_layered (VNum 5) = Inr INVALID"
    "proxyMap_get s_layered ReactiveMap (VNum 5) = None"
    by (code_simp, simp, code_simp, code_simp)
  have c: "readonly_chain 2 s_layered (VRef 2) = Some (VRef 1)"
    "raw_chain 3 s_layered (VRef 2) = Some (VRef 0)" by code_simp+
  from operations_return [where s = s_layered and t = "VNum 5" and ro = False
      and bh = mutableHandlers and ch = mutableCollectionHandlers and pm = ReactiveMap
      and m = MutableDeep and v = VNull and n = 0 and y = VNull and k = 0 and z = VNull] h
  have a: "quiet s_layered (VNum 5)"
    "wrap MutableDeep s_layered (VNum 5) = Inr (VNum 5, s_layered)"
    "isReactive s_layered VNull = Some (Inr False)" "isProxy s_layered VNull = Inr False"
    by (simp_all del: wrap.simps)
  from operations_return [where s = s_layered and t = "VNum 5" and ro = False
      and bh = mutableHandlers and ch = mutableCollectionHandlers and pm = ReactiveMap
      and m = MutableDeep and v = "VRef 2" and n = 2 and y = "VRef 1" and k = 3
      and z = "VRef 0"] c
  have b: "\<exists>b. isReactive s_layered (VRef 2) = Some (Inr b)"
    "toRaw s_layered (VRef 2) = Some (Inr (VRef 0))"
    "\<exists>s'. markRaw s_layered (VRef 2) = Inr (VRef 2, s')"
    by (blast, blast, simp)
  from h c a b show ?thesis by (simp del: wrap.simps)
qed

lemma isReactive_cycle:
  assumes "isReadonly s v = Inr True" and "get_prop s v RAW = Inr v"
  shows "isReactive s v = None"
proof -
  have ne: "\<not> (s' = s \<and> v' = v)" if t: "isReactive s' v' = Some y" for s' v' y
  proof (rule isReactive.raw_induct [where P = "\<lambda>s' v' y. \<not> (s' = s \<and> v' = v)", OF _ t])
    fix f s' v' y
    assume IH: "\<And>a b c. f a b = Some c \<Longrightarrow> \<not> (a = s \<and> b = v)"
      and body: "(case isReadonly s' v' of
          Inl e \<Rightarrow> Some (Inl e)
        | Inr ro \<Rightarrow>
            if ro
            then case get_prop s' v' RAW of Inl e \<Rightarrow> Some (Inl e) | Inr raw \<Rightarrow> f s' raw
            else Some (if truthy v'
                       then case get_prop s' v' IS_REACTIVE of
                              Inl e \<Rightarrow> Inl e | Inr f \<Rightarrow> Inr (truthy f)
                       else Inr False)) = Some y"
    show "\<not> (s' = s \<and> v' = v)"
    proof
      assume "s' = s \<and> v' = v"
      with body assms have "f s v = Some y" by simp
      from IH [OF this] show False by simp
    qed
  qed
  have "isReactive s v \<noteq> Some y" for y using ne [of s v y] by blast
  then show ?thesis by (cases "isReactive s v") auto
qed

text \<open>
  The claim as it stands fails in five places. \<^verbatim>\<open>isReactive\<close> does not return on an
  ordinary object that reports readonly and whose raw property is the object itself,
  \<^verbatim>\<open>c = {__v_isReadonly: true}; c.__v_raw = c\<close>, and neither does \<^verbatim>\<open>toRaw\<close> (in JavaScript
  the recursion ends in a \<^verbatim>\<open>RangeError\<close>). In a development build \<^verbatim>\<open>reactive(f)\<close> throws
  for \<^verbatim>\<open>f = () => {}; f.toString = 1\<close>, in the string conversion of the warning. After
  \<^verbatim>\<open>reactive(x)\<close> and \<^verbatim>\<open>markRaw(x)\<close> the object \<open>x\<close> is ineligible, and \<^verbatim>\<open>reactive(x)\<close>
  returns the registered proxy, not \<open>x\<close>. And \<^verbatim>\<open>markRaw(null)\<close> throws.
\<close>

theorem operations_return_counterexample:
  "isReadonly s_spoof (VRef 3) = Inr True
   \<and> get_prop s_spoof (VRef 3) RAW = Inr (VRef 3)
   \<and> isReactive s_spoof (VRef 3) = None
   \<and> toRaw s_spoof (VRef 3) = None
   \<and> \<not> isObject s_fn (VRef 0)
   \<and> reactive s_fn (VRef 0) = Inl TypeError
   \<and> getTargetType s_marked (VRef 0) = Inr INVALID
   \<and> reactive s_marked (VRef 0) = Inr (VRef 1, s_marked)
   \<and> markRaw s_plain VNull = Inl TypeError"
proof -
  have a: "isReadonly s_spoof (VRef 3) = Inr True" by code_simp
  have b: "get_prop s_spoof (VRef 3) RAW = Inr (VRef 3)" by code_simp
  have c: "toRaw s_spoof (VRef 3) = None" using b by (rule toRaw_cycle) simp
  have d: "\<not> isObject s_fn (VRef 0)" "reactive s_fn (VRef 0) = Inl TypeError"
    "getTargetType s_marked (VRef 0) = Inr INVALID"
    "reactive s_marked (VRef 0) = Inr (VRef 1, s_marked)"
    "markRaw s_plain VNull = Inl TypeError"
    by code_simp+
  from isReactive_cycle [OF a b] a b c d show ?thesis by (simp del: get_prop.simps)
qed

section \<open>Stability under further calls\<close>

text \<open>
  What one call of a program can do to the state: nothing, or allocate one proxy and
  register it for its target, which the classifier accepts and which had no entry, or set
  the skip flag on an extensible ordinary object that had no own skip property.
\<close>

lemma exec_op_cases [consumes 1, case_names same alloc mark]:
  assumes "exec_op s c = Inr (r, s')"
  obtains
    (same) "s' = s"
  | (alloc) b hs pm tt where "b < length (heap s)" "map_of (registry s pm) b = None"
      "getTargetType s (VRef b) = Inr tt" "tt \<noteq> INVALID"
      "s' = registry_update (s\<lparr>heap := heap s @ [Proxy b hs]\<rparr>) pm b (length (heap s))"
  | (mark) k ob where "cell_at (heap s) k = Some (Obj ob)" "map_of (props ob) SKIP = None"
      "extensible ob"
      "s' = s\<lparr>heap := (heap s)[k := Obj (ob\<lparr>props := AList.update SKIP (VBool True) (props ob)\<rparr>)]\<rparr>"
proof -
  have w: thesis if "wrap m s v = Inr (r, s')" for m v
  proof (cases rule: wrap_cases [of m s v])
    case same
    with that show ?thesis by (auto intro: \<open>s' = s \<Longrightarrow> thesis\<close>)
  next
    case (hit a p)
    with that show ?thesis by (auto intro: \<open>s' = s \<Longrightarrow> thesis\<close>)
  next
    case (fresh a tt)
    with that show ?thesis by (auto intro: alloc)
  next
    case (threw e)
    with that show ?thesis by simp
  qed
  show ?thesis
  proof (cases c)
    case (OpWrap m v)
    with assms show ?thesis using w by simp
  next
    case (OpMarkRaw v)
    with assms have m: "markRaw s v = Inr (r, s')" by simp
    show ?thesis
    proof (cases rule: markRaw_cases [of s v])
      case (error e)
      with m show ?thesis by simp
    next
      case same
      with m show ?thesis by (auto intro: \<open>s' = s \<Longrightarrow> thesis\<close>)
    next
      case (marked a ob)
      from base_obj_cell [OF marked(2)] marked m show ?thesis by (auto intro: mark)
    qed
  next
    case (OpToReactive v)
    with assms show ?thesis
      using w [of MutableDeep v] \<open>s' = s \<Longrightarrow> thesis\<close>
      by (simp add: toReactive_unfold del: wrap.simps split: if_splits)
  next
    case (OpToReadonly v)
    with assms show ?thesis
      using w [of ReadonlyDeep v] \<open>s' = s \<Longrightarrow> thesis\<close>
      by (simp add: toReadonly_unfold del: wrap.simps split: if_splits)
  qed
qed

subsection \<open>Setting the skip flag\<close>

lemma js_get_mark:
  assumes "cell_at h k = Some (Obj ob)" and "key \<noteq> SKIP"
  shows "js_get (h[k := Obj (ob\<lparr>props := AList.update SKIP x (props ob)\<rparr>)]) a key = js_get h a key"
proof -
  let ?ob' = "ob\<lparr>props := AList.update SKIP x (props ob)\<rparr>"
  let ?h' = "h[k := Obj ?ob']"
  have o: "own_get ?ob' key = own_get ob key" using assms(2) by (simp add: own_get_update_other)
  have kl: "k < length h" using assms(1) by (rule cell_at_Some_less)
  show ?thesis
  proof (cases "cell_at h a")
    case None
    with assms(1) have "cell_at ?h' a = None" by (auto simp: cell_at_update)
    with None show ?thesis by (simp add: js_get_def)
  next
    case (Some d)
    show ?thesis
    proof (cases d)
      case (Obj y)
      with Some assms(1) o kl show ?thesis by (auto simp: js_get_def cell_at_update)
    next
      case (Proxy t hs)
      with Some assms(1) have "a \<noteq> k" by auto
      with Some Proxy have c': "cell_at ?h' a = Some (Proxy t hs)" by (simp add: cell_at_update)
      have "(case base_obj ?h' a of Some ob \<Rightarrow> own_get ob key | None \<Rightarrow> VUndefined)
            = (case base_obj h a of Some ob \<Rightarrow> own_get ob key | None \<Rightarrow> VUndefined)"
      proof (cases "resolve h a = k")
        case True
        with assms(1) have "base_obj h a = Some ob" by (simp add: base_obj_def)
        with True o show ?thesis by (simp add: base_obj_update_Obj [OF assms(1)])
      next
        case False
        then show ?thesis by (simp add: base_obj_update_Obj [OF assms(1)])
      qed
      with Some Proxy c' show ?thesis by (simp add: js_get_def split: option.splits)
    qed
  qed
qed

lemma base_obj_mark:
  assumes "cell_at h k = Some (Obj ob)" and "f ob' = f ob"
  shows "(case base_obj (h[k := Obj ob']) a of Some y \<Rightarrow> f y | None \<Rightarrow> d)
         = (case base_obj h a of Some y \<Rightarrow> f y | None \<Rightarrow> d)"
proof (cases "resolve h a = k")
  case True
  with assms(1) have "base_obj h a = Some ob" by (simp add: base_obj_def)
  with True assms(2) show ?thesis by (simp add: base_obj_update_Obj [OF assms(1)])
next
  case False
  then show ?thesis by (simp add: base_obj_update_Obj [OF assms(1)])
qed

lemma registry_heap_update [simp]: "registry (s\<lparr>heap := h\<rparr>) pm = registry s pm"
  by (cases pm) simp_all

lemma already_proxy_total: "\<exists>b. already_proxy s (VRef a) ro = Inr b"
  by (auto simp: already_proxy_def)

lemma mark_reads:
  assumes "cell_at (heap s) k = Some (Obj ob)"
    and "s' = s\<lparr>heap := (heap s)[k := Obj (ob\<lparr>props := AList.update SKIP x (props ob)\<rparr>)]\<rparr>"
  shows "key \<noteq> SKIP \<Longrightarrow> get_prop s' v key = get_prop s v key"
    and "isObject s' v = isObject s v"
    and "isExtensible s' v = isExtensible s v"
    and "toRawType s' v = toRawType s v"
    and "dev_warning s' v = dev_warning s v"
proof -
  show "key \<noteq> SKIP \<Longrightarrow> get_prop s' v key = get_prop s v key"
    by (cases v) (simp_all add: assms(2) js_get_mark [OF assms(1)])
  note b = base_obj_mark [OF assms(1)]
  show "isObject s' v = isObject s v"
    by (cases v) (simp_all add: isObject_def assms(2) b [where f = "\<lambda>ob. \<not> callable ob"])
  show "isExtensible s' v = isExtensible s v"
    by (cases v) (simp_all add: isExtensible_def assms(2) b [where f = extensible])
  show "toRawType s' v = toRawType s v"
    by (cases v) (simp_all add: assms(2) b [where f = rawType])
  show "dev_warning s' v = dev_warning s v"
    by (cases v)
       (simp_all add: dev_warning_def js_String_def assms(2)
          b [where f = "\<lambda>ob. if printable ob then Inr () else Inl TypeError"])
qed

lemma mark_skip_truthy:
  assumes "cell_at (heap s) k = Some (Obj ob)"
    and "s' = s\<lparr>heap := (heap s)[k := Obj (ob\<lparr>props := AList.update SKIP (VBool True) (props ob)\<rparr>)]\<rparr>"
    and "map_of (props ob) SKIP = None"
    and "truthy (js_get (heap s) a SKIP)"
  shows "truthy (js_get (heap s') a SKIP)"
proof -
  let ?ob' = "ob\<lparr>props := AList.update SKIP (VBool True) (props ob)\<rparr>"
  have kl: "k < length (heap s)" using assms(1) by (rule cell_at_Some_less)
  have nob: "own_get ob SKIP = VUndefined" using assms(3) by (simp add: own_get_def)
  show ?thesis
  proof (cases "cell_at (heap s) a")
    case None
    with assms(4) show ?thesis by (simp add: js_get_def)
  next
    case (Some d)
    show ?thesis
    proof (cases d)
      case (Obj y)
      show ?thesis
      proof (cases "a = k")
        case True
        with kl show ?thesis
          by (simp add: assms(2) js_get_def cell_at_update own_get_update_same)
      next
        case False
        with Some Obj assms(4) show ?thesis
          by (simp add: assms(2) js_get_def cell_at_update)
      qed
    next
      case (Proxy t hs)
      with Some assms(1) have "a \<noteq> k" by auto
      with Some Proxy have c': "cell_at (heap s') a = Some (Proxy t hs)"
        by (simp add: assms(2) cell_at_update)
      show ?thesis
      proof (cases "resolve (heap s) a = k")
        case True
        with c' show ?thesis
          by (simp add: js_get_def handler_get_def assms(2) base_obj_update_Obj [OF assms(1)]
              own_get_update_same)
      next
        case False
        with Some Proxy c' assms(4) show ?thesis
          by (simp add: js_get_def handler_get_def assms(2) base_obj_update_Obj [OF assms(1)])
      qed
    qed
  qed
qed

lemma getTargetType_INVALID_iff:
  "getTargetType s (VRef a) = Inr INVALID \<longleftrightarrow>
     truthy (js_get (heap s) a SKIP) \<or> \<not> isExtensible s (VRef a)
     \<or> targetTypeMap (toRawType s (VRef a)) = INVALID"
  by (simp add: getTargetType_def)

subsection \<open>A call that has returned returns the same again\<close>

lemma wrap_fixed_cases [consumes 1, case_names nonobj flagged invalid hit]:
  assumes "wrap m s x = Inr (w, s)"
  obtains
    (nonobj) "w = x" "\<not> isObject s x"
      "(m = MutableDeep \<and> isReadonly s x = Inr True) \<or> dev_warning s x = Inr ()"
  | (flagged) "w = x" "isObject s x"
      "already_proxy s x (mode_readonly m) = Inr True
       \<or> (m = MutableDeep \<and> isReadonly s x = Inr True)"
  | (invalid) a where "w = x" "x = VRef a" "isObject s x"
      "already_proxy s x (mode_readonly m) = Inr False"
      "m = MutableDeep \<longrightarrow> isReadonly s x = Inr False"
      "map_of (registry s (mode_registry m)) a = None" "getTargetType s x = Inr INVALID"
  | (hit) a p where "x = VRef a" "w = VRef p" "isObject s x"
      "already_proxy s x (mode_readonly m) = Inr False"
      "m = MutableDeep \<longrightarrow> isReadonly s x = Inr False"
      "map_of (registry s (mode_registry m)) a = Some p"
proof (cases "isObject s x")
  case False
  with assms show ?thesis
    by (cases "dev_warning s x")
       (auto simp: wrap_non_object split: if_splits intro: nonobj)
next
  case True
  note io = True
  then obtain a where a: "x = VRef a" using isObject_VRef by blast
  obtain b where b: "already_proxy s x (mode_readonly m) = Inr b"
    using already_proxy_total a by blast
  obtain r where r: "isReadonly s x = Inr r" using isReadonly_total by blast
  show ?thesis
  proof (cases "b \<or> (m = MutableDeep \<and> r)")
    case True
    with b r io have "wrap m s x = Inr (x, s)"
      by (auto simp: wrap_unfold createReactiveObject_def)
    with assms True b r io show ?thesis by (auto intro: flagged)
  next
    case False
    with b r have nb: "already_proxy s x (mode_readonly m) = Inr False"
      and nr: "m = MutableDeep \<longrightarrow> isReadonly s x = Inr False" by auto
    then have w: "wrap m s x = createReactiveObject s x (mode_readonly m)
        (fst (mode_handlers m)) (snd (mode_handlers m)) (mode_registry m)"
      by (auto simp: wrap_unfold)
    show ?thesis
    proof (cases "map_of (registry s (mode_registry m)) a")
      case (Some p)
      with w io nb a have "wrap m s x = Inr (VRef p, s)"
        by (simp add: createReactiveObject_def proxyMap_get_def)
      with assms a io nb nr Some show ?thesis by (auto intro: hit)
    next
      case None
      obtain tt where tt: "getTargetType s x = Inr tt" using a by (simp add: getTargetType_def)
      show ?thesis
      proof (cases "tt = INVALID")
        case True
        with w io nb a None tt have "wrap m s x = Inr (x, s)"
          by (simp add: createReactiveObject_def proxyMap_get_def)
        with assms a io nb nr None tt True show ?thesis by (auto intro: invalid)
      next
        case False
        with w io nb a None tt have "heap (snd (projr (wrap m s x))) \<noteq> heap s"
          by (simp add: createReactiveObject_def proxyMap_get_def new_Proxy_def
              proxyMap_set_def)
        with assms show ?thesis by simp
      qed
    qed
  qed
qed

lemma wrap_fixed_step:
  assumes fixed: "wrap m s x = Inr (w, s)" and v: "valid s x"
    and step: "exec_op s c = Inr (r, s')"
  shows "wrap m s' x = Inr (w, s') \<and> valid s' x"
  using step
proof (cases rule: exec_op_cases)
  case same
  with fixed v show ?thesis by simp
next
  case (alloc b hs pm tt)
  have h: "heap s' = heap s @ [Proxy b hs]" by (simp add: alloc(5))
  have v': "valid s' x" using v by (cases x) (simp_all add: valid_def h)
  have "DEV s' = DEV s" by (simp add: alloc(5))
  note io = isObject_ext [OF h v] and ap = already_proxy_ext [OF h v]
    and ro = isReadonly_ext [OF h v] and gt = getTargetType_ext [OF h v]
    and dw = dev_warning_ext [OF h v this]
  have reg: "map_of (registry s' (mode_registry m)) a =
      (if mode_registry m = pm \<and> a = b then Some (length (heap s))
       else map_of (registry s (mode_registry m)) a)" for a
    by (simp add: alloc(5) registry_registry_update update_conv')
  from fixed show ?thesis
  proof (cases rule: wrap_fixed_cases)
    case nonobj
    with io ro dw have "wrap m s' x = Inr (x, s')"
      by (auto simp: wrap_non_object)
    with nonobj v' show ?thesis by simp
  next
    case flagged
    with io ap ro have "wrap m s' x = Inr (x, s')"
      by (auto simp: wrap_unfold createReactiveObject_def)
    with flagged v' show ?thesis by simp
  next
    case (invalid a)
    have "a \<noteq> b" using invalid(2,7) alloc(3,4) by auto
    with invalid(6) reg have "proxyMap_get s' (mode_registry m) x = None"
      by (auto simp: proxyMap_get_def invalid(2))
    moreover have "getTargetType s' x = Inr INVALID" using invalid(7) gt by simp
    moreover have "quiet s' x" using invalid(3) io by simp
    ultimately have "wrap m s' x = Inr (x, s')" by (simp add: wrap_INVALID)
    with invalid v' show ?thesis by simp
  next
    case (hit a p)
    have "\<not> (mode_registry m = pm \<and> a = b)" using hit(6) alloc(2) by auto
    with hit(6) reg have "proxyMap_get s' (mode_registry m) x = Some p"
      by (auto simp: proxyMap_get_def hit(1))
    moreover have "isObject s' x" "already_proxy s' x (mode_readonly m) = Inr False"
      using hit(3,4) io ap by simp_all
    ultimately have "createReactiveObject s' x (mode_readonly m) bh ch (mode_registry m)
        = Inr (VRef p, s')" for bh ch
      by (simp add: createReactiveObject_def)
    moreover have "\<not> (m = MutableDeep \<and> isReadonly s' x = Inr True)"
      using hit(5) ro by auto
    ultimately have "wrap m s' x = Inr (VRef p, s')"
      by (simp only: wrap_unfold if_False)
    with hit v' show ?thesis by simp
  qed
next
  case (mark k ob)
  note rd = mark_reads [OF mark(1,4)]
  have v': "valid s' x" using v by (cases x) (simp_all add: valid_def mark(4))
  have ap: "already_proxy s' x ro = already_proxy s x ro" for ro
    by (simp add: already_proxy_def rd(1) cong: sum.case_cong if_cong)
  have ro: "isReadonly s' x = isReadonly s x"
    by (simp add: isReadonly_def rd(1))
  have reg: "registry s' pm = registry s pm" for pm
    by (cases pm) (simp_all add: mark(4))
  from fixed show ?thesis
  proof (cases rule: wrap_fixed_cases)
    case nonobj
    with rd(2,5) ro have "wrap m s' x = Inr (x, s')"
      by (auto simp: wrap_non_object)
    with nonobj v' show ?thesis by simp
  next
    case flagged
    with rd(2) ap ro have "wrap m s' x = Inr (x, s')"
      by (auto simp: wrap_unfold createReactiveObject_def)
    with flagged v' show ?thesis by simp
  next
    case (invalid a)
    from invalid(6) reg have "proxyMap_get s' (mode_registry m) x = None"
      by (simp add: proxyMap_get_def invalid(2))
    moreover have "getTargetType s' x = Inr INVALID"
      using invalid(7) mark_skip_truthy [OF mark(1,4,2), of a]
      unfolding invalid(2) getTargetType_INVALID_iff rd(3) rd(4) by blast
    moreover have "quiet s' x" using invalid(3) rd(2) by simp
    ultimately have "wrap m s' x = Inr (x, s')" by (simp add: wrap_INVALID)
    with invalid v' show ?thesis by simp
  next
    case (hit a p)
    from hit(6) reg have "proxyMap_get s' (mode_registry m) x = Some p"
      by (simp add: proxyMap_get_def hit(1))
    moreover have "isObject s' x" "already_proxy s' x (mode_readonly m) = Inr False"
      using hit(3,4) rd(2) ap by simp_all
    ultimately have "createReactiveObject s' x (mode_readonly m) bh ch (mode_registry m)
        = Inr (VRef p, s')" for bh ch
      by (simp add: createReactiveObject_def)
    moreover have "\<not> (m = MutableDeep \<and> isReadonly s' x = Inr True)"
      using hit(5) ro by auto
    ultimately have "wrap m s' x = Inr (VRef p, s')"
      by (simp only: wrap_unfold if_False)
    with hit v' show ?thesis by simp
  qed
qed

lemma wrap_fixed_run:
  "wrap m s x = Inr (w, s) \<Longrightarrow> valid s x \<Longrightarrow> wrap m (run s cs) x = Inr (w, run s cs)"
proof (induction cs arbitrary: s)
  case Nil
  then show ?case by simp
next
  case (Cons c cs)
  show ?case
  proof (cases "exec_op s c")
    case (Inl e)
    with Cons show ?thesis by simp
  next
    case (Inr rs)
    obtain r s' where rs: "rs = (r, s')" by (cases rs)
    with Inr Cons.prems wrap_fixed_step have "wrap m s' x = Inr (w, s') \<and> valid s' x" by blast
    with Cons.IH Inr rs show ?thesis by simp
  qed
qed

lemma wrap_valid:
  assumes "wf s" and "wrap m s x = Inr (w, s')" and "valid s x"
  shows "valid s' x \<and> valid s' w"
proof (cases rule: wrap_cases [of m s x])
  case same
  with assms show ?thesis by simp
next
  case (hit a p)
  from wf_lookup [OF assms(1) hit(6)] have "p < length (heap s)"
    by (auto dest: cell_at_Some_less)
  with hit assms show ?thesis by (auto simp: valid_def)
next
  case (fresh a tt)
  with assms show ?thesis by (auto simp: valid_def)
next
  case (threw e)
  with assms show ?thesis by simp
qed

text \<open>
  C1. In a well-formed state every constructor call returns, and from the state it
  leaves, the same call on the same value returns the same result and changes nothing,
  and so does the call on the result itself; this stays so after any program of further
  constructor and \<^verbatim>\<open>markRaw\<close> calls. For an eligible original the result is a wrapper: a
  proxy over that original, other than the original, with a handler of the mode,
  registered for the original in the registry of the mode. The one error a constructor
  can raise is that of the development warning, on a value that \<^verbatim>\<open>isObject\<close> rejects and
  whose string conversion fails; an eligible original is an object, so it is not among
  these.
\<close>

theorem wrap_idempotent_identity_stable:
  assumes "wf s"
  shows "case wrap m s x of
           Inl e \<Rightarrow> \<not> isObject s x \<and> dev_warning s x = Inl e
         | Inr (w, s1) \<Rightarrow>
             wrap m s1 x = Inr (w, s1) \<and> wrap m s1 w = Inr (w, s1)
             \<and> (valid s x \<longrightarrow>
                  (\<forall>cs. wrap m (run s1 cs) x = Inr (w, run s1 cs)
                      \<and> wrap m (run s1 cs) w = Inr (w, run s1 cs)))
             \<and> (eligible s x \<longrightarrow>
                  (\<exists>a p hs. x = VRef a \<and> w = VRef p \<and> p \<noteq> a
                     \<and> cell_at (heap s1) p = Some (Proxy a hs)
                     \<and> handler_readonly hs = mode_readonly m
                     \<and> map_of (registry s1 (mode_registry m)) a = Some p))"
proof (cases "wrap m s x")
  case (Inl e)
  from wrap_error [OF this] Inl show ?thesis by simp
next
  case (Inr ws)
  obtain w s1 where "ws = (w, s1)" by (cases ws)
  with Inr have w: "wrap m s x = Inr (w, s1)" by simp
  note again = wrap_again [OF assms w]
  have "wrap m (run s1 cs) x = Inr (w, run s1 cs) \<and> wrap m (run s1 cs) w = Inr (w, run s1 cs)"
    if v: "valid s x" for cs
    using wrap_valid [OF assms w v] again wrap_fixed_run [of m s1 x w cs]
      wrap_fixed_run [of m s1 w w cs]
    by blast
  with again wrap_eligible [OF assms _ w] w show ?thesis
    by (simp del: wrap.simps)
qed

theorem wrap_idempotent_identity_stable_witness:
  "wf s_plain \<and> valid s_plain (VRef 0) \<and> eligible s_plain (VRef 0)
   \<and> wrap ReadonlyDeep s_plain (VRef 0) = Inr (VRef 1, s_readonly)
   \<and> wrap ReadonlyDeep s_readonly (VRef 1) = Inr (VRef 1, s_readonly)
   \<and> wrap ReadonlyDeep (run s_readonly [OpMarkRaw (VRef 0), OpWrap MutableDeep (VRef 1)])
        (VRef 0)
       = Inr (VRef 1, run s_readonly [OpMarkRaw (VRef 0), OpWrap MutableDeep (VRef 1)])"
proof -
  have h: "wf s_plain" by code_simp
  have v: "valid s_plain (VRef 0)" by code_simp
  have e: "eligible s_plain (VRef 0)" by code_simp
  have w: "wrap ReadonlyDeep s_plain (VRef 0) = Inr (VRef 1, s_readonly)" by code_simp
  from wrap_idempotent_identity_stable [OF h, where m = ReadonlyDeep and x = "VRef 0"] v w
  have "wrap ReadonlyDeep s_readonly (VRef 1) = Inr (VRef 1, s_readonly)"
    and "\<forall>cs. wrap ReadonlyDeep (run s_readonly cs) (VRef 0) = Inr (VRef 1, run s_readonly cs)"
    by (simp_all del: wrap.simps)
  with h v e w show ?thesis by (simp del: wrap.simps run.simps)
qed

end
